theory Spec2Isabelle
  imports Main "HOL-Library.Word"
begin

section \<open>Blinded Diffie-Hellman over the RFC 3526 group 14 (dhgroup14.go)\<close>

text \<open>
  A shallow embedding of the Go package \<open>dhgroup14\<close>. Byte slices are lists of
  8-bit words, \<open>*big.Int\<close> values are mathematical integers, the \<open>io.Reader\<close>
  is an explicit state threaded through every call, and every error return or run-time
  panic of the source is a value on the left of a sum.
\<close>

subsection \<open>Bytes, errors and the random source\<close>

type_synonym byte = "8 word"

text \<open>
  What \<open>io.ReadFull\<close> can report: \<open>io.EOF\<close> when no byte could be read,
  \<open>io.ErrUnexpectedEOF\<close> when the stream ended part-way, or the reader's own error.
\<close>

datatype read_error = EOF | ErrUnexpectedEOF | ReaderError string

text \<open>
  The errors of the package: the four \<open>errors.New\<close> values (kept by their message),
  a failure of the random source passed on unchanged, and a run-time panic.
\<close>

datatype error = ErrorsNew string | ReadFailure read_error | Panic string

text \<open>
  An \<open>io.Reader\<close> is a byte stream: the bytes it will still deliver, and how it ends
  afterwards (\<open>None\<close>: end of file, \<open>Some msg\<close>: an error of the reader's own).
\<close>

record reader =
  pending :: "byte list"
  ending :: "string option"

text \<open>
  \<open>io.ReadFull(r, buf)\<close> with \<open>len(buf) = n\<close>: exactly \<open>n\<close> bytes, or an error.
  A short read consumes what was left.
\<close>

definition ReadFull :: "reader \<Rightarrow> nat \<Rightarrow> (read_error + byte list) \<times> reader" where
  "ReadFull r n =
     (if n \<le> length (pending r)
      then (Inr (take n (pending r)), r\<lparr>pending := drop n (pending r)\<rparr>)
      else (Inl (case ending r of
                   None \<Rightarrow> (if pending r = [] then EOF else ErrUnexpectedEOF)
                 | Some msg \<Rightarrow> ReaderError msg),
            r\<lparr>pending := []\<rparr>))"

subsection \<open>The operations of \<open>math/big\<close> the package calls\<close>

text \<open>\<open>SetBytes\<close>: the buffer read as a big-endian unsigned integer.\<close>

definition big_SetBytes :: "byte list \<Rightarrow> int" where
  "big_SetBytes buf = foldl (\<lambda>acc b. acc * 256 + uint b) 0 buf"

text \<open>\<open>Bytes\<close>: the absolute value as a big-endian byte slice without leading zeros.\<close>

fun be_bytes :: "nat \<Rightarrow> byte list" where
  "be_bytes n = (if n = 0 then [] else be_bytes (n div 256) @ [of_nat (n mod 256)])"

definition big_Bytes :: "int \<Rightarrow> byte list" where
  "big_Bytes x = be_bytes (nat \<bar>x\<bar>)"

text \<open>\<open>BitLen\<close>: the length of the absolute value in bits; 0 for 0.\<close>

fun bit_length :: "nat \<Rightarrow> nat" where
  "bit_length n = (if n = 0 then 0 else Suc (bit_length (n div 2)))"

definition big_BitLen :: "int \<Rightarrow> nat" where
  "big_BitLen x = bit_length (nat \<bar>x\<bar>)"

text \<open>
  \<open>Mod\<close>: the Euclidean modulus, a result in \<open>[0, |y|)\<close>; a division by zero
  panics (\<open>None\<close>).
\<close>

definition big_Mod :: "int \<Rightarrow> int \<Rightarrow> int option" where
  "big_Mod x y = (if y = 0 then None else Some (x mod \<bar>y\<bar>))"

text \<open>
  \<open>ModInverse\<close>, by the extended Euclidean algorithm: \<open>None\<close> (Go's \<open>nil\<close>)
  when \<open>g\<close> and \<open>n\<close> are not relatively prime.
\<close>

fun ext_gcd :: "nat \<Rightarrow> nat \<Rightarrow> nat \<times> int \<times> int" where
  "ext_gcd a b =
     (if b = 0 then (a, 1, 0)
      else (case ext_gcd b (a mod b) of
              (d, x, y) \<Rightarrow> (d, y, x - int (a div b) * y)))"

definition big_ModInverse :: "int \<Rightarrow> int \<Rightarrow> int option" where
  "big_ModInverse g n =
     (let n = \<bar>n\<bar>;
          g = (if g < 0 then g mod n else g)
      in case ext_gcd (nat g) (nat n) of
           (d, x, y) \<Rightarrow>
             if d = 1 then Some (if x < 0 then x + n else x) else None)"

text \<open>
  \<open>Exp(x, y, m)\<close> as documented: \<open>x**y mod |m|\<close>; for \<open>m\<close> nil or 0 (both
  written 0 here) it is \<open>x**y\<close>, and 1 when \<open>y \<le> 0\<close>; for \<open>y < 0\<close> and
  \<open>m \<noteq> 0\<close> the inverse of \<open>x\<close> is raised to \<open>|y|\<close>, and the result is
  \<open>nil\<close> when \<open>x\<close> has no inverse.
\<close>

definition big_Exp :: "int \<Rightarrow> int \<Rightarrow> int \<Rightarrow> int option" where
  "big_Exp x y m =
     (if y < 0 then
        (if m = 0 then Some 1
         else (case big_ModInverse x m of
                 None \<Rightarrow> None
               | Some xinv \<Rightarrow> Some (xinv ^ nat (- y) mod \<bar>m\<bar>)))
      else if m = 0 then Some (x ^ nat y)
      else Some (x ^ nat y mod \<bar>m\<bar>))"

subsection \<open>Group constants\<close>

definition PrivateKeySize :: nat where "PrivateKeySize = 32"
definition PublicKeySize :: nat where "PublicKeySize = 256"
definition SharedKeySize :: nat where "SharedKeySize = 256"

definition modulus_bytes :: "byte list" where
  "modulus_bytes =
    [
     0xff, 0xff, 0xff, 0xff, 0xff, 0xff, 0xff, 0xff, 0xc9, 0x0f, 0xda, 0xa2,
     0x21, 0x68, 0xc2, 0x34, 0xc4, 0xc6, 0x62, 0x8b, 0x80, 0xdc, 0x1c, 0xd1,
     0x29, 0x02, 0x4e, 0x08, 0x8a, 0x67, 0xcc, 0x74, 0x02, 0x0b, 0xbe, 0xa6,
     0x3b, 0x13, 0x9b, 0x22, 0x51, 0x4a, 0x08, 0x79, 0x8e, 0x34, 0x04, 0xdd,
     0xef, 0x95, 0x19, 0xb3, 0xcd, 0x3a, 0x43, 0x1b, 0x30, 0x2b, 0x0a, 0x6d,
     0xf2, 0x5f, 0x14, 0x37, 0x4f, 0xe1, 0x35, 0x6d, 0x6d, 0x51, 0xc2, 0x45,
     0xe4, 0x85, 0xb5, 0x76, 0x62, 0x5e, 0x7e, 0xc6, 0xf4, 0x4c, 0x42, 0xe9,
     0xa6, 0x37, 0xed, 0x6b, 0x0b, 0xff, 0x5c, 0xb6, 0xf4, 0x06, 0xb7, 0xed,
     0xee, 0x38, 0x6b, 0xfb, 0x5a, 0x89, 0x9f, 0xa5, 0xae, 0x9f, 0x24, 0x11,
     0x7c, 0x4b, 0x1f, 0xe6, 0x49, 0x28, 0x66, 0x51, 0xec, 0xe4, 0x5b, 0x3d,
     0xc2, 0x00, 0x7c, 0xb8, 0xa1, 0x63, 0xbf, 0x05, 0x98, 0xda, 0x48, 0x36,
     0x1c, 0x55, 0xd3, 0x9a, 0x69, 0x16, 0x3f, 0xa8, 0xfd, 0x24, 0xcf, 0x5f,
     0x83, 0x65, 0x5d, 0x23, 0xdc, 0xa3, 0xad, 0x96, 0x1c, 0x62, 0xf3, 0x56,
     0x20, 0x85, 0x52, 0xbb, 0x9e, 0xd5, 0x29, 0x07, 0x70, 0x96, 0x96, 0x6d,
     0x67, 0x0c, 0x35, 0x4e, 0x4a, 0xbc, 0x98, 0x04, 0xf1, 0x74, 0x6c, 0x08,
     0xca, 0x18, 0x21, 0x7c, 0x32, 0x90, 0x5e, 0x46, 0x2e, 0x36, 0xce, 0x3b,
     0xe3, 0x9e, 0x77, 0x2c, 0x18, 0x0e, 0x86, 0x03, 0x9b, 0x27, 0x83, 0xa2,
     0xec, 0x07, 0xa2, 0x8f, 0xb5, 0xc5, 0x5d, 0xf0, 0x6f, 0x4c, 0x52, 0xc9,
     0xde, 0x2b, 0xcb, 0xf6, 0x95, 0x58, 0x17, 0x18, 0x39, 0x95, 0x49, 0x7c,
     0xea, 0x95, 0x6a, 0xe5, 0x15, 0xd2, 0x26, 0x18, 0x98, 0xfa, 0x05, 0x10,
     0x15, 0x72, 0x8e, 0x5a, 0x8a, 0xac, 0xaa, 0x68, 0xff, 0xff, 0xff, 0xff,
     0xff, 0xff, 0xff, 0xff
    ]"

definition modulus :: int where
  "modulus = big_SetBytes modulus_bytes"

definition generator :: int where
  "generator = 2"

definition twoExp256 :: int where
  "twoExp256 = (case big_Exp generator 256 0 of Some z \<Rightarrow> z | None \<Rightarrow> 0)"

subsection \<open>The blinded exponentiation engine\<close>

text \<open>The exponent \<open>2^258 + privateKey\<close>: \<open>2^256\<close> added four times.\<close>

definition trueExponent :: "byte list \<Rightarrow> int" where
  "trueExponent privateKey =
     (let priv = big_SetBytes privateKey;
          priv = priv + twoExp256;
          priv = priv + twoExp256;
          priv = priv + twoExp256;
          priv = priv + twoExp256
      in priv)"

text \<open>The blinding exponent made of the 32 bytes read from the random source.\<close>

definition blindingExponent :: "byte list \<Rightarrow> int" where
  "blindingExponent blindingBytes =
     (let blinding = big_SetBytes blindingBytes;
          blinding = blinding + twoExp256
      in blinding)"

text \<open>
  A \<open>nil\<close> result of \<open>Exp\<close> makes the following \<open>Mul\<close> panic; \<open>copy\<close> into
  \<open>result[len(result)-len(rb):]\<close> panics when \<open>rb\<close> is longer than \<open>result\<close>.
\<close>

definition blindedModExp :: "reader \<Rightarrow> int \<Rightarrow> byte list \<Rightarrow> (error + byte list) \<times> reader" where
  "blindedModExp rand a privateKey =
     (let priv = trueExponent privateKey
      in case ReadFull rand PrivateKeySize of
           (Inl err, rand') \<Rightarrow> (Inl (ReadFailure err), rand')
         | (Inr blindingBytes, rand') \<Rightarrow>
             (let blinding = blindingExponent blindingBytes;
                  privBlinded = priv - blinding
              in case big_Exp a blinding modulus of
                   None \<Rightarrow> (Inl (Panic ''nil pointer dereference''), rand')
                 | Some r1 \<Rightarrow>
                     (case big_Exp a privBlinded modulus of
                        None \<Rightarrow> (Inl (Panic ''nil pointer dereference''), rand')
                      | Some r2 \<Rightarrow>
                          (case big_Mod (r1 * r2) modulus of
                             None \<Rightarrow> (Inl (Panic ''division by zero''), rand')
                           | Some r1 \<Rightarrow>
                               if big_BitLen r1 > big_BitLen modulus
                               then (Inl (ErrorsNew ''dhgroup14: result is too large''), rand')
                               else (let rb = big_Bytes r1
                                     in if length rb > PublicKeySize
                                        then (Inl (Panic ''slice bounds out of range''), rand')
                                        else (Inr (replicate (PublicKeySize - length rb) 0 @ rb),
                                              rand'))))))"

subsection \<open>The public operations\<close>

definition GeneratePublicKey :: "reader \<Rightarrow> byte list \<Rightarrow> (error + byte list) \<times> reader" where
  "GeneratePublicKey rand privateKey =
     (if length privateKey \<noteq> PrivateKeySize
      then (Inl (ErrorsNew ''dhgroup14: wrong private key size''), rand)
      else blindedModExp rand generator privateKey)"

text \<open>
  \<open>GenerateKeyPair\<close> returns Go's triple \<open>(publicKey, privateKey, err)\<close>; a \<open>nil\<close>
  slice and a \<open>nil\<close> error are \<open>None\<close>.
\<close>

definition GenerateKeyPair ::
  "reader \<Rightarrow> (byte list option \<times> byte list option \<times> error option) \<times> reader" where
  "GenerateKeyPair rand =
     (case ReadFull rand PrivateKeySize of
        (Inl err, rand') \<Rightarrow> ((None, None, Some (ReadFailure err)), rand')
      | (Inr privateKey, rand') \<Rightarrow>
          (case GeneratePublicKey rand' privateKey of
             (Inl err, rand'') \<Rightarrow> ((None, None, Some err), rand'')
           | (Inr publicKey, rand'') \<Rightarrow> ((Some publicKey, Some privateKey, None), rand'')))"

definition SharedKey :: "reader \<Rightarrow> byte list \<Rightarrow> byte list \<Rightarrow> (error + byte list) \<times> reader" where
  "SharedKey rand theirPublicKey myPrivateKey =
     (if length theirPublicKey \<noteq> PublicKeySize
      then (Inl (ErrorsNew ''dhgroup14: wrong public key size''), rand)
      else if length myPrivateKey \<noteq> PrivateKeySize
      then (Inl (ErrorsNew ''dhgroup14: wrong private key size''), rand)
      else (let bp = big_SetBytes theirPublicKey
            in if bp \<ge> modulus
               then (Inl (ErrorsNew ''dhgroup14: public key is too large''), rand)
               else blindedModExp rand bp myPrivateKey))"

section \<open>The same operations on byte slices in memory\<close>

text \<open>
  To speak about which bytes a call writes, byte slices become references into a store.
  The store is the list of the backing arrays allocated so far; an array is addressed
  by its index, and allocation appends. A slice is a window of \<open>len\<close> bytes starting
  at \<open>offset\<close> in the array \<open>array\<close>. \<open>big.Int\<close> values keep no reference to a byte
  slice (\<open>SetBytes\<close> copies its argument), so they stay integers.
\<close>

type_synonym memory = "byte list list"

record slice =
  array :: nat
  offset :: nat
  len :: nat

text \<open>The bytes a slice shows. A slice of a Go program always lies in a live array.\<close>

definition valid_slice :: "memory \<Rightarrow> slice \<Rightarrow> bool" where
  "valid_slice mem s \<longleftrightarrow> array s < length mem \<and> offset s + len s \<le> length (mem ! array s)"

definition load :: "memory \<Rightarrow> slice \<Rightarrow> byte list" where
  "load mem s =
     (if array s < length mem then take (len s) (drop (offset s) (mem ! array s)) else [])"

text \<open>\<open>make([]byte, n)\<close>, and a local array \<open>[n]byte\<close> sliced whole: a new zeroed array.\<close>

definition make_slice :: "memory \<Rightarrow> nat \<Rightarrow> slice \<times> memory" where
  "make_slice mem n = (\<lparr>array = length mem, offset = 0, len = n\<rparr>, mem @ [replicate n 0])"

text \<open>
  Writing bytes to the front of a slice, as \<open>copy\<close> and a reader's \<open>Read\<close> do:
  as many as fit.
\<close>

definition write_bytes :: "memory \<Rightarrow> slice \<Rightarrow> byte list \<Rightarrow> memory" where
  "write_bytes mem dst bs =
     (if array dst < length mem
      then (let n = min (len dst) (length bs);
                a = mem ! array dst
            in mem[array dst := take (offset dst) a @ take n bs @ drop (offset dst + n) a])
      else mem)"

definition copy_slice :: "memory \<Rightarrow> slice \<Rightarrow> slice \<Rightarrow> memory" where
  "copy_slice mem dst src = write_bytes mem dst (load mem src)"

text \<open>\<open>x.Bytes()\<close> returns a slice of a new array.\<close>

definition Bytes_mem :: "memory \<Rightarrow> int \<Rightarrow> slice \<times> memory" where
  "Bytes_mem mem x =
     (\<lparr>array = length mem, offset = 0, len = length (big_Bytes x)\<rparr>, mem @ [big_Bytes x])"

text \<open>
  \<open>io.ReadFull(r, buf)\<close>: the reader writes into \<open>buf\<close> and nowhere else; after a short
  read \<open>buf\<close> holds the bytes that were delivered.
\<close>

definition ReadFull_mem :: "memory \<Rightarrow> reader \<Rightarrow> slice \<Rightarrow> read_error option \<times> memory \<times> reader" where
  "ReadFull_mem mem r buf =
     (case ReadFull r (len buf) of
        (Inl err, r') \<Rightarrow> (Some err, write_bytes mem buf (pending r), r')
      | (Inr bs, r') \<Rightarrow> (None, write_bytes mem buf bs, r'))"

definition blindedModExp_mem ::
  "memory \<Rightarrow> reader \<Rightarrow> int \<Rightarrow> slice \<Rightarrow> (error + slice) \<times> memory \<times> reader" where
  "blindedModExp_mem mem rand a privateKey =
     (let priv = trueExponent (load mem privateKey);
          (blindingBytes, mem) = make_slice mem PrivateKeySize
      in case ReadFull_mem mem rand blindingBytes of
           (Some err, mem, rand') \<Rightarrow> (Inl (ReadFailure err), mem, rand')
         | (None, mem, rand') \<Rightarrow>
             (let blinding = blindingExponent (load mem blindingBytes);
                  privBlinded = priv - blinding
              in case big_Exp a blinding modulus of
                   None \<Rightarrow> (Inl (Panic ''nil pointer dereference''), mem, rand')
                 | Some r1 \<Rightarrow>
                     (case big_Exp a privBlinded modulus of
                        None \<Rightarrow> (Inl (Panic ''nil pointer dereference''), mem, rand')
                      | Some r2 \<Rightarrow>
                          (case big_Mod (r1 * r2) modulus of
                             None \<Rightarrow> (Inl (Panic ''division by zero''), mem, rand')
                           | Some r1 \<Rightarrow>
                               if big_BitLen r1 > big_BitLen modulus
                               then (Inl (ErrorsNew ''dhgroup14: result is too large''), mem, rand')
                               else (let (result, mem) = make_slice mem PublicKeySize;
                                         (rb, mem) = Bytes_mem mem r1
                                     in if len rb > len result
                                        then (Inl (Panic ''slice bounds out of range''), mem, rand')
                                        else (Inr result,
                                              copy_slice mem
                                                (result\<lparr>offset := offset result + (len result - len rb),
                                                        len := len rb\<rparr>) rb,
                                              rand'))))))"

definition GeneratePublicKey_mem ::
  "memory \<Rightarrow> reader \<Rightarrow> slice \<Rightarrow> (error + slice) \<times> memory \<times> reader" where
  "GeneratePublicKey_mem mem rand privateKey =
     (if len privateKey \<noteq> PrivateKeySize
      then (Inl (ErrorsNew ''dhgroup14: wrong private key size''), mem, rand)
      else blindedModExp_mem mem rand generator privateKey)"

definition SharedKey_mem ::
  "memory \<Rightarrow> reader \<Rightarrow> slice \<Rightarrow> slice \<Rightarrow> (error + slice) \<times> memory \<times> reader" where
  "SharedKey_mem mem rand theirPublicKey myPrivateKey =
     (if len theirPublicKey \<noteq> PublicKeySize
      then (Inl (ErrorsNew ''dhgroup14: wrong public key size''), mem, rand)
      else if len myPrivateKey \<noteq> PrivateKeySize
      then (Inl (ErrorsNew ''dhgroup14: wrong private key size''), mem, rand)
      else (let bp = big_SetBytes (load mem theirPublicKey)
            in if bp \<ge> modulus
               then (Inl (ErrorsNew ''dhgroup14: public key is too large''), mem, rand)
               else blindedModExp_mem mem rand bp myPrivateKey))"

section \<open>Supporting lemmas\<close>

subsection \<open>Big-endian encoding and bit length\<close>

declare be_bytes.simps [simp del] bit_length.simps [simp del] ext_gcd.simps [simp del]

lemma SetBytes_Nil: "big_SetBytes [] = 0"
  by (simp add: big_SetBytes_def)

lemma SetBytes_snoc: "big_SetBytes (bs @ [b]) = big_SetBytes bs * 256 + uint b"
  by (simp add: big_SetBytes_def)

lemma SetBytes_nonneg: "0 \<le> big_SetBytes bs"
  by (induction bs rule: rev_induct) (simp_all add: SetBytes_Nil SetBytes_snoc)

lemma uint_byte_less: "uint (b :: byte) < 256"
  using uint_bounded [of b] by simp

lemma SetBytes_less: "big_SetBytes bs < 256 ^ length bs"
proof (induction bs rule: rev_induct)
  case Nil
  show ?case by (simp add: SetBytes_Nil)
next
  case (snoc b bs)
  have "big_SetBytes bs + 1 \<le> 256 ^ length bs"
    using snoc.IH by simp
  then have "(big_SetBytes bs + 1) * 256 \<le> 256 ^ length bs * 256"
    by (rule mult_right_mono) simp
  moreover have "uint b < 256" by (rule uint_byte_less)
  ultimately show ?case
    by (simp add: SetBytes_snoc algebra_simps)
qed

lemma SetBytes_append:
  "big_SetBytes (xs @ ys) = big_SetBytes xs * 256 ^ length ys + big_SetBytes ys"
proof (induction ys rule: rev_induct)
  case Nil
  show ?case by (simp add: SetBytes_Nil)
next
  case (snoc y ys)
  have "big_SetBytes (xs @ ys @ [y]) = big_SetBytes ((xs @ ys) @ [y])" by simp
  also have "\<dots> = big_SetBytes (xs @ ys) * 256 + uint y" by (rule SetBytes_snoc)
  finally show ?case
    by (simp add: snoc.IH SetBytes_snoc algebra_simps)
qed

lemma SetBytes_zeros: "big_SetBytes (replicate k 0) = 0"
  by (induction k) (simp_all add: big_SetBytes_def)

lemma SetBytes_pad: "big_SetBytes (replicate k 0 @ bs) = big_SetBytes bs"
  by (simp add: SetBytes_append SetBytes_zeros)

lemma SetBytes_be_bytes: "big_SetBytes (be_bytes n) = int n"
proof (induction n rule: be_bytes.induct)
  case (1 n)
  show ?case
  proof (cases "n = 0")
    case True
    then show ?thesis by (simp add: be_bytes.simps SetBytes_Nil)
  next
    case False
    have "uint (of_nat (n mod 256) :: byte) = int (n mod 256)"
      by (simp add: uint_nat unat_of_nat take_bit_eq_mod)
    with False 1 show ?thesis
      by (subst be_bytes.simps) (simp add: SetBytes_snoc zmod_int zdiv_int)
  qed
qed

lemma length_be_bytes: "length (be_bytes n) \<le> k \<longleftrightarrow> n < 256 ^ k"
proof (induction n arbitrary: k rule: be_bytes.induct)
  case (1 n)
  show ?case
  proof (cases "n = 0")
    case True
    then show ?thesis by (simp add: be_bytes.simps)
  next
    case False
    show ?thesis
    proof (cases k)
      case 0
      with False show ?thesis by (subst be_bytes.simps) simp
    next
      case (Suc j)
      have "length (be_bytes n) = Suc (length (be_bytes (n div 256)))"
        using False by (subst be_bytes.simps) simp
      moreover have "n div 256 < 256 ^ j \<longleftrightarrow> n < 256 ^ Suc j"
        by (simp add: less_mult_imp_div_less div_less_iff_less_mult mult.commute)
      ultimately show ?thesis
        using 1 [OF False, of j] Suc by simp
    qed
  qed
qed

lemma bit_length_le: "bit_length n \<le> k \<longleftrightarrow> n < 2 ^ k"
proof (induction n arbitrary: k rule: bit_length.induct)
  case (1 n)
  show ?case
  proof (cases "n = 0")
    case True
    then show ?thesis by (simp add: bit_length.simps)
  next
    case False
    show ?thesis
    proof (cases k)
      case 0
      with False show ?thesis by (subst bit_length.simps) simp
    next
      case (Suc j)
      have "bit_length n = Suc (bit_length (n div 2))"
        using False by (subst bit_length.simps) simp
      moreover have "n div 2 < 2 ^ j \<longleftrightarrow> n < 2 ^ Suc j"
        by (simp add: div_less_iff_less_mult mult.commute)
      ultimately show ?thesis
        using 1 [OF False, of j] Suc by simp
    qed
  qed
qed

lemma modulus_value: "modulus = 32317006071311007300338913926423828248817941241140239112842009751400741706634354222619689417363569347117901737909704191754605873209195028853758986185622153212175412514901774520270235796078236248884246189477587641105928646099411723245426622522193230540919037680524235519125679715870117001058055877651038861847280257976054903569732561526167081339361799541336476559160368317896729073178384589680639671900977202194168647225871031411336429319536193471636533209717077448227988588565369208645296636077250268955505928362751121174096972998068410554359584866583291642136218231078990999448652468262416972035911852507045361090559"
  by (simp add: modulus_def modulus_bytes_def big_SetBytes_def)

lemma twoExp256_value: "twoExp256 = 2 ^ 256"
  by (simp add: twoExp256_def big_Exp_def generator_def)


lemma modulus_pos: "0 < modulus"
  by (simp add: modulus_value)

lemma BitLen_le: "big_BitLen x \<le> k \<longleftrightarrow> \<bar>x\<bar> < 2 ^ k"
proof -
  have "nat \<bar>x\<bar> < 2 ^ k \<longleftrightarrow> \<bar>x\<bar> < int (2 ^ k)"
    by (rule nat_less_iff) simp
  then show ?thesis
    by (simp add: big_BitLen_def bit_length_le)
qed

lemma BitLen_mono:
  assumes "\<bar>x\<bar> \<le> \<bar>y\<bar>"
  shows "big_BitLen x \<le> big_BitLen y"
proof -
  have "\<bar>y\<bar> < 2 ^ big_BitLen y"
    using BitLen_le [of y "big_BitLen y"] by simp
  with assms have "\<bar>x\<bar> < 2 ^ big_BitLen y" by (rule le_less_trans)
  then show ?thesis by (simp only: BitLen_le)
qed

lemma length_Bytes_le: "length (big_Bytes x) \<le> k \<longleftrightarrow> \<bar>x\<bar> < 256 ^ k"
proof -
  have "nat \<bar>x\<bar> < 256 ^ k \<longleftrightarrow> \<bar>x\<bar> < int (256 ^ k)"
    by (rule nat_less_iff) simp
  then show ?thesis
    by (simp add: big_Bytes_def length_be_bytes)
qed

lemma modulus_less_256: "modulus < 256 ^ 256"
  by (simp add: modulus_value)

subsection \<open>The arithmetic of the engine\<close>

lemma trueExponent_value: "trueExponent privateKey = big_SetBytes privateKey + 2 ^ 258"
  by (simp add: trueExponent_def twoExp256_value Let_def)

lemma blindingExponent_value: "blindingExponent bb = big_SetBytes bb + 2 ^ 256"
  by (simp add: blindingExponent_def twoExp256_value Let_def)

lemma blindingExponent_bounds:
  assumes "length bb \<le> 32"
  shows "2 ^ 256 \<le> blindingExponent bb" and "blindingExponent bb < 2 ^ 257"
proof -
  show "2 ^ 256 \<le> blindingExponent bb"
    using SetBytes_nonneg [of bb] by (simp add: blindingExponent_value)
  have "(256::int) ^ length bb \<le> 256 ^ 32"
    using assms by (intro power_increasing) simp_all
  with SetBytes_less [of bb] have "big_SetBytes bb < 256 ^ 32" by linarith
  then show "blindingExponent bb < 2 ^ 257"
    by (simp add: blindingExponent_value)
qed

lemma remainder_positive:
  assumes "length bb \<le> 32"
  shows "2 ^ 257 < trueExponent privateKey - blindingExponent bb"
  using blindingExponent_bounds(2) [OF assms] SetBytes_nonneg [of privateKey]
  by (simp add: trueExponent_value)

lemma big_Exp_nonneg: "0 \<le> y \<Longrightarrow> big_Exp x y modulus = Some (x ^ nat y mod modulus)"
  using modulus_pos by (simp add: big_Exp_def)

lemma big_Mod_modulus: "big_Mod x modulus = Some (x mod modulus)"
  using modulus_pos by (simp add: big_Mod_def)

lemma split_power_mod:
  assumes "0 \<le> b" and "0 \<le> e - b"
  shows "(a ^ nat b mod m) * (a ^ nat (e - b) mod m) mod m = (a::int) ^ nat e mod m"
proof -
  have "nat e = nat b + nat (e - b)"
    using assms by simp
  then have "a ^ nat e = a ^ nat b * a ^ nat (e - b)"
    by (simp add: power_add)
  then show ?thesis
    by (simp add: mod_mult_eq)
qed

lemma engine_arith:
  assumes "length bb \<le> 32"
  shows "\<exists>r1 r2. big_Exp a (blindingExponent bb) modulus = Some r1
           \<and> big_Exp a (trueExponent privateKey - blindingExponent bb) modulus = Some r2
           \<and> big_Mod (r1 * r2) modulus = Some (a ^ nat (trueExponent privateKey) mod modulus)"
proof -
  have b: "0 \<le> blindingExponent bb"
    using blindingExponent_bounds(1) [OF assms] by simp
  have r: "0 \<le> trueExponent privateKey - blindingExponent bb"
    using remainder_positive [OF assms, of privateKey] by simp
  show ?thesis
    by (simp add: big_Exp_nonneg [OF b] big_Exp_nonneg [OF r] big_Mod_modulus
        split_power_mod [OF b r])
qed

lemma residue_bounds: "0 \<le> x mod modulus" "x mod modulus < modulus"
  using modulus_pos by simp_all

lemma BitLen_residue: "big_BitLen (x mod modulus) \<le> big_BitLen modulus"
  using residue_bounds [of x] by (intro BitLen_mono) linarith

lemma length_Bytes_residue: "length (big_Bytes (x mod modulus)) \<le> PublicKeySize"
proof -
  have "\<bar>x mod modulus\<bar> < modulus"
    using residue_bounds [of x] by linarith
  then have "\<bar>x mod modulus\<bar> < 256 ^ 256"
    using modulus_less_256 by (rule less_trans)
  then show ?thesis
    by (simp only: length_Bytes_le PublicKeySize_def)
qed


subsection \<open>The engine's result\<close>

lemma ReadFull_enough:
  "n \<le> length (pending r) \<Longrightarrow>
   ReadFull r n = (Inr (take n (pending r)), r\<lparr>pending := drop n (pending r)\<rparr>)"
  by (simp add: ReadFull_def)

lemma ReadFull_short:
  "length (pending r) < n \<Longrightarrow>
   ReadFull r n =
     (Inl (case ending r of
             None \<Rightarrow> (if pending r = [] then EOF else ErrUnexpectedEOF)
           | Some msg \<Rightarrow> ReaderError msg),
      r\<lparr>pending := []\<rparr>)"
  by (simp add: ReadFull_def)

lemma ReadFull_length: "ReadFull r n = (Inr bs, r') \<Longrightarrow> length bs = n"
  by (auto simp: ReadFull_def split: if_splits)

lemma blindedModExp_read_fail:
  assumes "ReadFull rand PrivateKeySize = (Inl err, rand')"
  shows "blindedModExp rand a privateKey = (Inl (ReadFailure err), rand')"
  using assms by (simp add: blindedModExp_def)

lemma blindedModExp_read_ok:
  assumes "ReadFull rand PrivateKeySize = (Inr bb, rand')"
  shows "blindedModExp rand a privateKey =
           (Inr (replicate (PublicKeySize - length (big_Bytes (a ^ nat (trueExponent privateKey) mod modulus))) 0
                 @ big_Bytes (a ^ nat (trueExponent privateKey) mod modulus)), rand')"
proof -
  have "length bb \<le> 32"
    using ReadFull_length [OF assms] by (simp add: PrivateKeySize_def)
  from engine_arith [OF this, of a privateKey]
  obtain r1 r2 where
    r1: "big_Exp a (blindingExponent bb) modulus = Some r1" and
    r2: "big_Exp a (trueExponent privateKey - blindingExponent bb) modulus = Some r2" and
    m: "big_Mod (r1 * r2) modulus = Some (a ^ nat (trueExponent privateKey) mod modulus)"
    by blast
  have bl: "\<not> big_BitLen modulus < big_BitLen (a ^ nat (trueExponent privateKey) mod modulus)"
    using BitLen_residue [of "a ^ nat (trueExponent privateKey)"] by simp
  have ln: "\<not> PublicKeySize < length (big_Bytes (a ^ nat (trueExponent privateKey) mod modulus))"
    using length_Bytes_residue [of "a ^ nat (trueExponent privateKey)"] by simp
  show ?thesis
    unfolding blindedModExp_def Let_def
    by (simp only: assms r1 r2 m bl ln prod.case sum.case option.case if_False)
qed

lemma length_padded:
  "length bs \<le> n \<Longrightarrow> length (replicate (n - length bs) (0::byte) @ bs) = n"
  by simp


section \<open>Properties of the package\<close>

subsection \<open>C3: the sign of the remainder exponent\<close>

text \<open>
  C3 (amended). For every 32-byte secret exponent and every 32 blinding bytes the
  remainder \<open>trueExponent - blinding\<close> computed at the subtraction step is strictly
  positive, indeed greater than \<open>2^257\<close>: the true exponent is at least \<open>2^258\<close> and
  the blinding exponent is below \<open>2^257\<close>.
\<close>

theorem remainder_exponent_positive:
  assumes "length privateKey = PrivateKeySize" and "length blindingBytes = PrivateKeySize"
  shows "0 < trueExponent privateKey - blindingExponent blindingBytes
         \<and> 2 ^ 257 < trueExponent privateKey - blindingExponent blindingBytes
         \<and> trueExponent privateKey = big_SetBytes privateKey + 2 ^ 258
         \<and> blindingExponent blindingBytes = big_SetBytes blindingBytes + 2 ^ 256"
proof -
  have "length blindingBytes \<le> 32"
    using assms(2) by (simp add: PrivateKeySize_def)
  from remainder_positive [OF this, of privateKey]
  have gt: "2 ^ 257 < trueExponent privateKey - blindingExponent blindingBytes" .
  have "(0::int) < 2 ^ 257" by simp
  then have "0 < trueExponent privateKey - blindingExponent blindingBytes"
    using gt by (rule less_trans)
  with gt show ?thesis
    by (simp only: trueExponent_value blindingExponent_value simp_thms)
qed

theorem remainder_exponent_positive_witness:
  "length (replicate 32 (0::byte)) = PrivateKeySize
   \<and> length (replicate 32 (255::byte)) = PrivateKeySize
   \<and> 0 < trueExponent (replicate 32 0) - blindingExponent (replicate 32 255)"
proof -
  have k: "length (replicate 32 (0::byte)) = PrivateKeySize"
    by (simp add: PrivateKeySize_def)
  have b: "length (replicate 32 (255::byte)) = PrivateKeySize"
    by (simp add: PrivateKeySize_def)
  from remainder_exponent_positive [OF k b] k b show ?thesis
    by blast
qed

text \<open>
  C3 as stated fails: no 32-byte secret exponent and 32 blinding bytes make the remainder
  negative.
\<close>

theorem remainder_exponent_never_negative:
  "\<not> (\<exists>privateKey blindingBytes.
        length privateKey = PrivateKeySize \<and> length blindingBytes = PrivateKeySize
        \<and> trueExponent privateKey - blindingExponent blindingBytes < 0)"
proof
  assume "\<exists>privateKey blindingBytes.
        length privateKey = PrivateKeySize \<and> length blindingBytes = PrivateKeySize
        \<and> trueExponent privateKey - blindingExponent blindingBytes < 0"
  then obtain privateKey blindingBytes where
    "length blindingBytes = PrivateKeySize" and
    neg: "trueExponent privateKey - blindingExponent blindingBytes < 0"
    by blast
  then have "length blindingBytes \<le> 32"
    by (simp add: PrivateKeySize_def)
  from remainder_positive [OF this, of privateKey]
  have "0 < trueExponent privateKey - blindingExponent blindingBytes"
    by simp
  with neg show False by simp
qed

subsection \<open>C1: blinding is transparent\<close>

lemma SetBytes_padded_residue:
  "big_SetBytes (replicate k 0 @ big_Bytes (x mod modulus)) = x mod modulus"
proof -
  have "0 \<le> x mod modulus" by (rule residue_bounds)
  then have "int (nat \<bar>x mod modulus\<bar>) = x mod modulus" by simp
  then show ?thesis
    by (simp only: SetBytes_pad big_Bytes_def SetBytes_be_bytes)
qed

lemma length_padded_residue:
  "length (replicate (PublicKeySize - length (big_Bytes (x mod modulus))) (0::byte)
           @ big_Bytes (x mod modulus)) = PublicKeySize"
  using length_Bytes_residue [of x] by (rule length_padded)

text \<open>
  C1. Blinding is transparent. For a 32-byte secret exponent, a base in \<open>[0, modulus)\<close>
  and any 32 blinding bytes read from the random source, the engine succeeds with
  \<open>base^(2^258 + bytesToUint(secretExponentBytes)) mod modulus\<close> written as 256
  big-endian bytes, zero-padded on the left; a second call with the same base and
  exponent and another blinding draw returns the same bytes.
\<close>

theorem blinding_transparent:
  assumes "length privateKey = PrivateKeySize" and "0 \<le> a" and "a < modulus"
    and "ReadFull rand PrivateKeySize = (Inr blindingBytes, rand')"
    and "ReadFull rand2 PrivateKeySize = (Inr blindingBytes2, rand2')"
  shows "\<exists>out. blindedModExp rand a privateKey = (Inr out, rand')
           \<and> out = replicate (256 - length (big_Bytes (a ^ nat (2 ^ 258 + big_SetBytes privateKey) mod modulus))) 0
                    @ big_Bytes (a ^ nat (2 ^ 258 + big_SetBytes privateKey) mod modulus)
           \<and> length out = 256
           \<and> big_SetBytes out = a ^ nat (2 ^ 258 + big_SetBytes privateKey) mod modulus
           \<and> blindedModExp rand2 a privateKey = (Inr out, rand2')"
proof -
  have e: "trueExponent privateKey = 2 ^ 258 + big_SetBytes privateKey"
    by (simp only: trueExponent_value add.commute)
  note r1 = blindedModExp_read_ok [OF assms(4), of a privateKey]
  note r2 = blindedModExp_read_ok [OF assms(5), of a privateKey]
  note len = length_padded_residue [of "a ^ nat (trueExponent privateKey)"]
  note val = SetBytes_padded_residue
    [of "PublicKeySize - length (big_Bytes (a ^ nat (trueExponent privateKey) mod modulus))"
        "a ^ nat (trueExponent privateKey)"]
  from r1 r2 len val show ?thesis
    unfolding e PublicKeySize_def by blast
qed

theorem blinding_transparent_witness:
  "length (replicate 32 (90::byte)) = PrivateKeySize \<and> (0::int) \<le> 2 \<and> 2 < modulus
   \<and> (\<exists>out. blindedModExp \<lparr>pending = replicate 32 255, ending = None\<rparr> 2 (replicate 32 90)
                = (Inr out, \<lparr>pending = [], ending = None\<rparr>)
           \<and> blindedModExp \<lparr>pending = replicate 40 7, ending = Some ''broken''\<rparr> 2 (replicate 32 90)
                = (Inr out, \<lparr>pending = replicate 8 7, ending = Some ''broken''\<rparr>)
           \<and> length out = 256)"
proof -
  have k: "length (replicate 32 (90::byte)) = PrivateKeySize"
    by (simp add: PrivateKeySize_def)
  have a0: "(0::int) \<le> 2" by simp
  have a1: "2 < modulus" by (simp add: modulus_value)
  have d1: "ReadFull \<lparr>pending = replicate 32 255, ending = None\<rparr> PrivateKeySize
            = (Inr (replicate 32 255), \<lparr>pending = [], ending = None\<rparr>)"
    by (simp add: ReadFull_def PrivateKeySize_def)
  have d2: "ReadFull \<lparr>pending = replicate 40 7, ending = Some ''broken''\<rparr> PrivateKeySize
            = (Inr (replicate 32 7), \<lparr>pending = replicate 8 7, ending = Some ''broken''\<rparr>)"
    by (simp add: ReadFull_def PrivateKeySize_def)
  from blinding_transparent [OF k a0 a1 d1 d2] k a0 a1 show ?thesis
    by blast
qed

subsection \<open>C4: the overflow check\<close>

text \<open>
  C4. The overflow check never fires. Whatever the two partial powers are, the product
  reduced modulo the modulus is no longer in bits than the modulus; so for a base in
  \<open>[0, modulus)\<close> and a 32-byte secret exponent the engine fails only when reading the
  blinding bytes fails, with that failure, and succeeds otherwise.
\<close>

theorem result_overflow_unreachable:
  assumes "0 \<le> a" and "a < modulus" and "length privateKey = PrivateKeySize"
  shows "(\<exists>r. big_Mod (r1 * r2) modulus = Some r \<and> big_BitLen r \<le> big_BitLen modulus)
         \<and> fst (blindedModExp rand a privateKey) \<noteq> Inl (ErrorsNew ''dhgroup14: result is too large'')
         \<and> (case ReadFull rand PrivateKeySize of
               (Inl err, rand') \<Rightarrow> blindedModExp rand a privateKey = (Inl (ReadFailure err), rand')
             | (Inr blindingBytes, rand') \<Rightarrow> (\<exists>out. blindedModExp rand a privateKey = (Inr out, rand')))"
proof -
  have bits: "\<exists>r. big_Mod (r1 * r2) modulus = Some r \<and> big_BitLen r \<le> big_BitLen modulus"
    by (simp add: big_Mod_modulus BitLen_residue)
  obtain res rand' where rd: "ReadFull rand PrivateKeySize = (res, rand')"
    by (cases "ReadFull rand PrivateKeySize")
  show ?thesis
  proof (cases res)
    case (Inl err)
    with rd have "blindedModExp rand a privateKey = (Inl (ReadFailure err), rand')"
      by (simp add: blindedModExp_read_fail)
    with bits rd Inl show ?thesis by simp
  next
    case (Inr blindingBytes)
    with rd have "\<exists>out. blindedModExp rand a privateKey = (Inr out, rand')"
      by (simp add: blindedModExp_read_ok)
    with bits rd Inr show ?thesis by auto
  qed
qed

theorem result_overflow_unreachable_witness:
  "(0::int) \<le> 1 \<and> 1 < modulus \<and> length (replicate 32 (255::byte)) = PrivateKeySize
   \<and> blindedModExp \<lparr>pending = replicate 31 9, ending = None\<rparr> 1 (replicate 32 255)
       = (Inl (ReadFailure ErrUnexpectedEOF), \<lparr>pending = [], ending = None\<rparr>)
   \<and> fst (blindedModExp \<lparr>pending = replicate 32 9, ending = None\<rparr> 1 (replicate 32 255))
       \<noteq> Inl (ErrorsNew ''dhgroup14: result is too large'')"
proof -
  have a0: "(0::int) \<le> 1" by simp
  have a1: "1 < modulus" by (simp add: modulus_value)
  have k: "length (replicate 32 (255::byte)) = PrivateKeySize"
    by (simp add: PrivateKeySize_def)
  have d: "ReadFull \<lparr>pending = replicate 31 9, ending = None\<rparr> PrivateKeySize
            = (Inl ErrUnexpectedEOF, \<lparr>pending = [], ending = None\<rparr>)"
    by (simp add: ReadFull_def PrivateKeySize_def)
  from result_overflow_unreachable [OF a0 a1 k, of 0 0 "\<lparr>pending = replicate 31 9, ending = None\<rparr>"]
  have f: "blindedModExp \<lparr>pending = replicate 31 9, ending = None\<rparr> 1 (replicate 32 255)
       = (Inl (ReadFailure ErrUnexpectedEOF), \<lparr>pending = [], ending = None\<rparr>)"
    by (simp only: d prod.case sum.case)
  from result_overflow_unreachable [OF a0 a1 k, of 0 0 "\<lparr>pending = replicate 32 9, ending = None\<rparr>"]
  have g: "fst (blindedModExp \<lparr>pending = replicate 32 9, ending = None\<rparr> 1 (replicate 32 255))
       \<noteq> Inl (ErrorsNew ''dhgroup14: result is too large'')"
    by (rule conjunct1 [OF conjunct2])
  from a0 a1 k f g show ?thesis by blast
qed

subsection \<open>C5: public keys lie in the group's range\<close>

text \<open>
  C5. For a 32-byte private key and a random source that delivers the 32 blinding bytes,
  \<open>GeneratePublicKey\<close> succeeds and returns exactly 256 bytes whose big-endian value
  is below the modulus.
\<close>

theorem GeneratePublicKey_in_group:
  assumes "length privateKey = PrivateKeySize"
    and "ReadFull rand PrivateKeySize = (Inr blindingBytes, rand')"
  shows "\<exists>publicKey. GeneratePublicKey rand privateKey = (Inr publicKey, rand')
           \<and> length publicKey = 256
           \<and> 0 \<le> big_SetBytes publicKey \<and> big_SetBytes publicKey < modulus"
proof -
  let ?v = "generator ^ nat (trueExponent privateKey)"
  let ?out = "replicate (PublicKeySize - length (big_Bytes (?v mod modulus))) 0
              @ big_Bytes (?v mod modulus)"
  have "GeneratePublicKey rand privateKey = blindedModExp rand generator privateKey"
    using assms(1) by (simp add: GeneratePublicKey_def)
  then have "GeneratePublicKey rand privateKey = (Inr ?out, rand')"
    by (simp only: blindedModExp_read_ok [OF assms(2)])
  moreover have "length ?out = 256"
    using length_padded_residue [of ?v] by (simp only: PublicKeySize_def)
  moreover have "big_SetBytes ?out = ?v mod modulus"
    by (rule SetBytes_padded_residue)
  ultimately show ?thesis
    using residue_bounds [of ?v] by auto
qed

theorem GeneratePublicKey_in_group_witness:
  "length (replicate 32 (0::byte)) = PrivateKeySize
   \<and> (\<exists>publicKey. GeneratePublicKey \<lparr>pending = replicate 32 171, ending = None\<rparr> (replicate 32 0)
                      = (Inr publicKey, \<lparr>pending = [], ending = None\<rparr>)
           \<and> length publicKey = 256 \<and> big_SetBytes publicKey < modulus)"
proof -
  have k: "length (replicate 32 (0::byte)) = PrivateKeySize"
    by (simp add: PrivateKeySize_def)
  have d: "ReadFull \<lparr>pending = replicate 32 171, ending = None\<rparr> PrivateKeySize
            = (Inr (replicate 32 171), \<lparr>pending = [], ending = None\<rparr>)"
    by (simp add: ReadFull_def PrivateKeySize_def)
  from GeneratePublicKey_in_group [OF k d] k show ?thesis
    by blast
qed

subsection \<open>C2: key agreement\<close>

lemma power_residue_commute:
  "((g ^ x mod m) ^ y) mod m = ((g ^ y mod m) ^ x) mod (m::int)"
proof -
  have "((g ^ x mod m) ^ y) mod m = (g ^ x) ^ y mod m"
    by (rule power_mod)
  also have "\<dots> = (g ^ y) ^ x mod m"
    by (simp add: power_mult [symmetric] mult.commute)
  also have "\<dots> = ((g ^ y mod m) ^ x) mod m"
    by (rule power_mod [symmetric])
  finally show ?thesis .
qed

lemma GeneratePublicKey_success:
  assumes "GeneratePublicKey rand privateKey = (Inr publicKey, rand')"
  shows "length publicKey = PublicKeySize"
    and "big_SetBytes publicKey = generator ^ nat (trueExponent privateKey) mod modulus"
proof -
  let ?v = "generator ^ nat (trueExponent privateKey)"
  have len: "length privateKey = PrivateKeySize"
    using assms by (auto simp: GeneratePublicKey_def split: if_splits)
  then have eng: "blindedModExp rand generator privateKey = (Inr publicKey, rand')"
    using assms by (simp add: GeneratePublicKey_def)
  obtain res r where rd: "ReadFull rand PrivateKeySize = (res, r)"
    by (cases "ReadFull rand PrivateKeySize")
  have "\<exists>bb. res = Inr bb"
  proof (cases res)
    case (Inl err)
    with rd eng show ?thesis by (simp add: blindedModExp_read_fail)
  next
    case (Inr bb)
    then show ?thesis by simp
  qed
  then obtain bb where "ReadFull rand PrivateKeySize = (Inr bb, r)"
    using rd by blast
  from blindedModExp_read_ok [OF this, of generator privateKey] eng
  have pk: "publicKey = replicate (PublicKeySize - length (big_Bytes (?v mod modulus))) 0
                        @ big_Bytes (?v mod modulus)"
    by simp
  show "length publicKey = PublicKeySize"
    unfolding pk by (rule length_padded_residue)
  show "big_SetBytes publicKey = ?v mod modulus"
    unfolding pk by (rule SetBytes_padded_residue)
qed

lemma SharedKey_valid:
  assumes "length theirPublicKey = PublicKeySize" and "length myPrivateKey = PrivateKeySize"
    and "big_SetBytes theirPublicKey < modulus"
  shows "SharedKey rand theirPublicKey myPrivateKey
           = blindedModExp rand (big_SetBytes theirPublicKey) myPrivateKey"
  using assms by (simp add: SharedKey_def Let_def)

text \<open>
  C2. Diffie-Hellman agreement. When \<open>GeneratePublicKey\<close> has produced \<open>pubA\<close> from
  the 32-byte key \<open>privA\<close> and \<open>pubB\<close> from \<open>privB\<close>, then, whatever blinding bytes
  the two calls read, \<open>SharedKey\<close> on \<open>(pubB, privA)\<close> and on \<open>(pubA, privB)\<close>
  both succeed and return the same 256 bytes.
\<close>

theorem SharedKey_agreement:
  assumes "length privA = PrivateKeySize" and "length privB = PrivateKeySize"
    and "GeneratePublicKey randA privA = (Inr pubA, randA')"
    and "GeneratePublicKey randB privB = (Inr pubB, randB')"
    and "ReadFull rand1 PrivateKeySize = (Inr blinding1, rand1')"
    and "ReadFull rand2 PrivateKeySize = (Inr blinding2, rand2')"
  shows "\<exists>sharedKey. SharedKey rand1 pubB privA = (Inr sharedKey, rand1')
           \<and> SharedKey rand2 pubA privB = (Inr sharedKey, rand2')
           \<and> length sharedKey = SharedKeySize"
proof -
  let ?eA = "nat (trueExponent privA)" and ?eB = "nat (trueExponent privB)"
  note A = GeneratePublicKey_success [OF assms(3)]
  note B = GeneratePublicKey_success [OF assms(4)]
  have ltA: "big_SetBytes pubA < modulus" and ltB: "big_SetBytes pubB < modulus"
    unfolding A(2) B(2) by (rule residue_bounds)+
  have s1: "SharedKey rand1 pubB privA = blindedModExp rand1 (big_SetBytes pubB) privA"
    using B(1) assms(1) ltB by (rule SharedKey_valid)
  have s2: "SharedKey rand2 pubA privB = blindedModExp rand2 (big_SetBytes pubA) privB"
    using A(1) assms(2) ltA by (rule SharedKey_valid)
  have same: "(generator ^ ?eB mod modulus) ^ ?eA mod modulus
              = (generator ^ ?eA mod modulus) ^ ?eB mod modulus"
    by (rule power_residue_commute)
  let ?s = "(generator ^ ?eA mod modulus) ^ ?eB"
  let ?out = "replicate (PublicKeySize - length (big_Bytes (?s mod modulus))) 0
              @ big_Bytes (?s mod modulus)"
  have "SharedKey rand1 pubB privA = (Inr ?out, rand1')"
    unfolding s1 B(2) by (simp only: blindedModExp_read_ok [OF assms(5)] same)
  moreover have "SharedKey rand2 pubA privB = (Inr ?out, rand2')"
    unfolding s2 A(2) by (simp only: blindedModExp_read_ok [OF assms(6)])
  moreover have "length ?out = SharedKeySize"
    using length_padded_residue [of ?s] by (simp only: PublicKeySize_def SharedKeySize_def)
  ultimately show ?thesis by blast
qed

theorem SharedKey_agreement_witness:
  "length (replicate 32 (1::byte)) = PrivateKeySize \<and> length (replicate 32 (2::byte)) = PrivateKeySize
   \<and> (\<exists>pubA pubB sharedKey.
         GeneratePublicKey \<lparr>pending = replicate 32 3, ending = None\<rparr> (replicate 32 1)
           = (Inr pubA, \<lparr>pending = [], ending = None\<rparr>)
       \<and> GeneratePublicKey \<lparr>pending = replicate 32 4, ending = None\<rparr> (replicate 32 2)
           = (Inr pubB, \<lparr>pending = [], ending = None\<rparr>)
       \<and> SharedKey \<lparr>pending = replicate 32 5, ending = None\<rparr> pubB (replicate 32 1)
           = (Inr sharedKey, \<lparr>pending = [], ending = None\<rparr>)
       \<and> SharedKey \<lparr>pending = replicate 32 6, ending = None\<rparr> pubA (replicate 32 2)
           = (Inr sharedKey, \<lparr>pending = [], ending = None\<rparr>)
       \<and> length sharedKey = SharedKeySize)"
proof -
  have kA: "length (replicate 32 (1::byte)) = PrivateKeySize"
    and kB: "length (replicate 32 (2::byte)) = PrivateKeySize"
    by (simp_all add: PrivateKeySize_def)
  have rd: "\<And>b::byte. ReadFull \<lparr>pending = replicate 32 b, ending = None\<rparr> PrivateKeySize
            = (Inr (replicate 32 b), \<lparr>pending = [], ending = None\<rparr>)"
    by (simp add: ReadFull_def PrivateKeySize_def)
  obtain pubA where gA: "GeneratePublicKey \<lparr>pending = replicate 32 3, ending = None\<rparr> (replicate 32 1)
           = (Inr pubA, \<lparr>pending = [], ending = None\<rparr>)"
    using blindedModExp_read_ok [OF rd, of 3 generator "replicate 32 1"] kA
    by (simp add: GeneratePublicKey_def)
  obtain pubB where gB: "GeneratePublicKey \<lparr>pending = replicate 32 4, ending = None\<rparr> (replicate 32 2)
           = (Inr pubB, \<lparr>pending = [], ending = None\<rparr>)"
    using blindedModExp_read_ok [OF rd, of 4 generator "replicate 32 2"] kB
    by (simp add: GeneratePublicKey_def)
  from SharedKey_agreement [OF kA kB gA gB rd rd, of 5 6] kA kB gA gB show ?thesis
    by blast
qed

subsection \<open>C6: the range check on the peer key\<close>

lemma blindedModExp_cases:
  "(\<exists>out rand'. blindedModExp rand a privateKey = (Inr out, rand'))
   \<or> (\<exists>err rand'. blindedModExp rand a privateKey = (Inl (ReadFailure err), rand'))"
proof -
  obtain res rand' where rd: "ReadFull rand PrivateKeySize = (res, rand')"
    by (cases "ReadFull rand PrivateKeySize")
  show ?thesis
  proof (cases res)
    case (Inl err)
    with rd show ?thesis by (simp add: blindedModExp_read_fail)
  next
    case (Inr bb)
    with rd show ?thesis by (simp add: blindedModExp_read_ok)
  qed
qed

lemma blindedModExp_no_ErrorsNew:
  "fst (blindedModExp rand a privateKey) \<noteq> Inl (ErrorsNew msg)"
  using blindedModExp_cases [of rand a privateKey] by auto

lemma length_modulus_bytes: "length modulus_bytes = PublicKeySize"
  by (simp add: modulus_bytes_def PublicKeySize_def)

lemma modulus_succ_bytes:
  "length (take 247 modulus_bytes @ [105, 0, 0, 0, 0, 0, 0, 0, 0]) = PublicKeySize"
  "big_SetBytes (take 247 modulus_bytes @ [105, 0, 0, 0, 0, 0, 0, 0, 0]) = modulus + 1"
  by (simp_all add: modulus_value modulus_bytes_def PublicKeySize_def big_SetBytes_def)

lemma SharedKey_too_large:
  assumes "length theirPublicKey = PublicKeySize" and "length myPrivateKey = PrivateKeySize"
    and "modulus \<le> big_SetBytes theirPublicKey"
  shows "SharedKey rand theirPublicKey myPrivateKey
           = (Inl (ErrorsNew ''dhgroup14: public key is too large''), rand)"
  using assms by (simp add: SharedKey_def Let_def)

text \<open>
  C6. For a 256-byte peer key and a 32-byte private key, \<open>SharedKey\<close> fails with the
  error "public key is too large" exactly when the peer key's big-endian value is at
  least the modulus, then without reading the random source; below the modulus it is
  the engine's call on that value. The 256-byte encodings of the modulus and of the
  modulus plus one are both rejected.
\<close>

theorem SharedKey_range_check:
  assumes "length theirPublicKey = PublicKeySize" and "length myPrivateKey = PrivateKeySize"
  shows "(fst (SharedKey rand theirPublicKey myPrivateKey)
            = Inl (ErrorsNew ''dhgroup14: public key is too large'')
          \<longleftrightarrow> modulus \<le> big_SetBytes theirPublicKey)
         \<and> (if modulus \<le> big_SetBytes theirPublicKey
             then SharedKey rand theirPublicKey myPrivateKey
                    = (Inl (ErrorsNew ''dhgroup14: public key is too large''), rand)
             else SharedKey rand theirPublicKey myPrivateKey
                    = blindedModExp rand (big_SetBytes theirPublicKey) myPrivateKey)
         \<and> length modulus_bytes = PublicKeySize \<and> big_SetBytes modulus_bytes = modulus
         \<and> SharedKey rand modulus_bytes myPrivateKey
              = (Inl (ErrorsNew ''dhgroup14: public key is too large''), rand)
         \<and> length (take 247 modulus_bytes @ [105, 0, 0, 0, 0, 0, 0, 0, 0]) = PublicKeySize
         \<and> big_SetBytes (take 247 modulus_bytes @ [105, 0, 0, 0, 0, 0, 0, 0, 0]) = modulus + 1
         \<and> SharedKey rand (take 247 modulus_bytes @ [105, 0, 0, 0, 0, 0, 0, 0, 0]) myPrivateKey
              = (Inl (ErrorsNew ''dhgroup14: public key is too large''), rand)"
proof -
  have iff: "fst (SharedKey rand theirPublicKey myPrivateKey)
            = Inl (ErrorsNew ''dhgroup14: public key is too large'')
          \<longleftrightarrow> modulus \<le> big_SetBytes theirPublicKey"
  proof (cases "modulus \<le> big_SetBytes theirPublicKey")
    case True
    with SharedKey_too_large [OF assms True, of rand] show ?thesis by simp
  next
    case False
    then have "SharedKey rand theirPublicKey myPrivateKey
           = blindedModExp rand (big_SetBytes theirPublicKey) myPrivateKey"
      using assms by (simp add: SharedKey_valid)
    with False blindedModExp_no_ErrorsNew show ?thesis by simp
  qed
  have br: "if modulus \<le> big_SetBytes theirPublicKey
             then SharedKey rand theirPublicKey myPrivateKey
                    = (Inl (ErrorsNew ''dhgroup14: public key is too large''), rand)
             else SharedKey rand theirPublicKey myPrivateKey
                    = blindedModExp rand (big_SetBytes theirPublicKey) myPrivateKey"
    using assms by (simp add: SharedKey_too_large SharedKey_valid)
  have m0: "big_SetBytes modulus_bytes = modulus"
    by (simp only: modulus_def)
  have m: "SharedKey rand modulus_bytes myPrivateKey
              = (Inl (ErrorsNew ''dhgroup14: public key is too large''), rand)"
    using length_modulus_bytes assms(2) by (rule SharedKey_too_large) (simp only: m0)
  have m1: "SharedKey rand (take 247 modulus_bytes @ [105, 0, 0, 0, 0, 0, 0, 0, 0]) myPrivateKey
              = (Inl (ErrorsNew ''dhgroup14: public key is too large''), rand)"
    using modulus_succ_bytes(1) assms(2)
    by (rule SharedKey_too_large) (simp only: modulus_succ_bytes(2))
  from iff br length_modulus_bytes m0 m modulus_succ_bytes m1 show ?thesis
    by (intro conjI)
qed

theorem SharedKey_range_check_witness:
  "length (replicate 255 0 @ [2::byte]) = PublicKeySize \<and> length (replicate 32 (7::byte)) = PrivateKeySize
   \<and> length modulus_bytes = PublicKeySize
   \<and> SharedKey \<lparr>pending = replicate 32 1, ending = None\<rparr> (replicate 255 0 @ [2]) (replicate 32 7)
       = blindedModExp \<lparr>pending = replicate 32 1, ending = None\<rparr> 2 (replicate 32 7)
   \<and> fst (SharedKey \<lparr>pending = replicate 32 1, ending = None\<rparr> modulus_bytes (replicate 32 7))
       = Inl (ErrorsNew ''dhgroup14: public key is too large'')"
proof -
  have p2: "length (replicate 255 0 @ [2::byte]) = PublicKeySize"
    by (simp add: PublicKeySize_def)
  have k: "length (replicate 32 (7::byte)) = PrivateKeySize"
    by (simp add: PrivateKeySize_def)
  have v2: "big_SetBytes (replicate 255 0 @ [2]) = 2"
    by (simp only: SetBytes_pad) (simp add: big_SetBytes_def)
  have vm: "modulus \<le> big_SetBytes modulus_bytes"
    by (simp only: modulus_def order_refl)
  have lt: "\<not> modulus \<le> big_SetBytes (replicate 255 0 @ [2])"
    unfolding v2 by (simp add: modulus_value)
  from SharedKey_range_check [OF p2 k, of "\<lparr>pending = replicate 32 1, ending = None\<rparr>"]
  have a: "SharedKey \<lparr>pending = replicate 32 1, ending = None\<rparr> (replicate 255 0 @ [2]) (replicate 32 7)
       = blindedModExp \<lparr>pending = replicate 32 1, ending = None\<rparr> 2 (replicate 32 7)"
    using lt by (simp only: v2 if_False)
  from SharedKey_range_check [OF length_modulus_bytes k, of "\<lparr>pending = replicate 32 1, ending = None\<rparr>"]
  have b: "fst (SharedKey \<lparr>pending = replicate 32 1, ending = None\<rparr> modulus_bytes (replicate 32 7))
       = Inl (ErrorsNew ''dhgroup14: public key is too large'')"
    using vm by simp
  from p2 k length_modulus_bytes a b show ?thesis by (intro conjI)
qed

subsection \<open>C7: size validation\<close>

text \<open>
  C7. \<open>GeneratePublicKey\<close> fails with "wrong private key size" if and only if the
  private key is not exactly 32 bytes. \<open>SharedKey\<close> fails with "wrong public key
  size" when the peer key is not exactly 256 bytes, and with "wrong private key size"
  when the peer key is 256 bytes and the private key is not 32. In each of these
  failures the random source is returned as it was given: nothing has been read.
\<close>

theorem size_validation:
  "(fst (GeneratePublicKey rand privateKey) = Inl (ErrorsNew ''dhgroup14: wrong private key size'')
      \<longleftrightarrow> length privateKey \<noteq> 32)
   \<and> (if length privateKey \<noteq> 32
       then GeneratePublicKey rand privateKey
              = (Inl (ErrorsNew ''dhgroup14: wrong private key size''), rand)
       else GeneratePublicKey rand privateKey = blindedModExp rand generator privateKey)
   \<and> (if length theirPublicKey \<noteq> 256
       then SharedKey rand theirPublicKey myPrivateKey
              = (Inl (ErrorsNew ''dhgroup14: wrong public key size''), rand)
       else if length myPrivateKey \<noteq> 32
       then SharedKey rand theirPublicKey myPrivateKey
              = (Inl (ErrorsNew ''dhgroup14: wrong private key size''), rand)
       else fst (SharedKey rand theirPublicKey myPrivateKey)
              \<noteq> Inl (ErrorsNew ''dhgroup14: wrong public key size'')
            \<and> fst (SharedKey rand theirPublicKey myPrivateKey)
              \<noteq> Inl (ErrorsNew ''dhgroup14: wrong private key size''))"
proof -
  have g: "fst (GeneratePublicKey rand privateKey) = Inl (ErrorsNew ''dhgroup14: wrong private key size'')
      \<longleftrightarrow> length privateKey \<noteq> 32"
    using blindedModExp_no_ErrorsNew [of rand generator privateKey]
    by (simp add: GeneratePublicKey_def PrivateKeySize_def)
  have g': "if length privateKey \<noteq> 32
       then GeneratePublicKey rand privateKey
              = (Inl (ErrorsNew ''dhgroup14: wrong private key size''), rand)
       else GeneratePublicKey rand privateKey = blindedModExp rand generator privateKey"
    by (simp add: GeneratePublicKey_def PrivateKeySize_def)
  have s: "if length theirPublicKey \<noteq> 256
       then SharedKey rand theirPublicKey myPrivateKey
              = (Inl (ErrorsNew ''dhgroup14: wrong public key size''), rand)
       else if length myPrivateKey \<noteq> 32
       then SharedKey rand theirPublicKey myPrivateKey
              = (Inl (ErrorsNew ''dhgroup14: wrong private key size''), rand)
       else fst (SharedKey rand theirPublicKey myPrivateKey)
              \<noteq> Inl (ErrorsNew ''dhgroup14: wrong public key size'')
            \<and> fst (SharedKey rand theirPublicKey myPrivateKey)
              \<noteq> Inl (ErrorsNew ''dhgroup14: wrong private key size'')"
    using blindedModExp_no_ErrorsNew [of rand "big_SetBytes theirPublicKey" myPrivateKey]
    by (simp add: SharedKey_def PrivateKeySize_def PublicKeySize_def Let_def)
  from g g' s show ?thesis by (intro conjI)
qed

theorem size_validation_witness:
  "GeneratePublicKey \<lparr>pending = replicate 32 1, ending = None\<rparr> []
     = (Inl (ErrorsNew ''dhgroup14: wrong private key size''), \<lparr>pending = replicate 32 1, ending = None\<rparr>)
   \<and> GeneratePublicKey \<lparr>pending = replicate 32 1, ending = None\<rparr> (replicate 31 0)
     = (Inl (ErrorsNew ''dhgroup14: wrong private key size''), \<lparr>pending = replicate 32 1, ending = None\<rparr>)
   \<and> GeneratePublicKey \<lparr>pending = replicate 32 1, ending = None\<rparr> (replicate 33 0)
     = (Inl (ErrorsNew ''dhgroup14: wrong private key size''), \<lparr>pending = replicate 32 1, ending = None\<rparr>)
   \<and> fst (GeneratePublicKey \<lparr>pending = replicate 32 1, ending = None\<rparr> (replicate 32 0))
     \<noteq> Inl (ErrorsNew ''dhgroup14: wrong private key size'')
   \<and> SharedKey \<lparr>pending = replicate 32 1, ending = None\<rparr> (replicate 255 0) (replicate 32 0)
     = (Inl (ErrorsNew ''dhgroup14: wrong public key size''), \<lparr>pending = replicate 32 1, ending = None\<rparr>)
   \<and> SharedKey \<lparr>pending = replicate 32 1, ending = None\<rparr> (replicate 256 0) (replicate 33 0)
     = (Inl (ErrorsNew ''dhgroup14: wrong private key size''), \<lparr>pending = replicate 32 1, ending = None\<rparr>)"
proof -
  let ?r = "\<lparr>pending = replicate 32 (1::byte), ending = None\<rparr>"
  have a: "GeneratePublicKey ?r []
     = (Inl (ErrorsNew ''dhgroup14: wrong private key size''), ?r)"
    using size_validation [of ?r "[]" "[]" "[]"] by simp
  have b: "GeneratePublicKey ?r (replicate 31 0)
     = (Inl (ErrorsNew ''dhgroup14: wrong private key size''), ?r)"
    using size_validation [of ?r "replicate 31 0" "[]" "[]"] by simp
  have c: "GeneratePublicKey ?r (replicate 33 0)
     = (Inl (ErrorsNew ''dhgroup14: wrong private key size''), ?r)"
    using size_validation [of ?r "replicate 33 0" "[]" "[]"] by simp
  have d: "fst (GeneratePublicKey ?r (replicate 32 0))
     \<noteq> Inl (ErrorsNew ''dhgroup14: wrong private key size'')"
    using size_validation [of ?r "replicate 32 0" "[]" "[]", THEN conjunct1] by simp
  have e: "SharedKey ?r (replicate 255 0) (replicate 32 0)
     = (Inl (ErrorsNew ''dhgroup14: wrong public key size''), ?r)"
    using size_validation [of ?r "[]" "replicate 255 0" "replicate 32 0"] by simp
  have f: "SharedKey ?r (replicate 256 0) (replicate 33 0)
     = (Inl (ErrorsNew ''dhgroup14: wrong private key size''), ?r)"
    using size_validation [of ?r "[]" "replicate 256 0" "replicate 33 0"] by simp
  from a b c d e f show ?thesis by (intro conjI)
qed

subsection \<open>C8: key-pair generation\<close>

lemma GeneratePublicKey_read_ok:
  assumes "length privateKey = PrivateKeySize"
    and "ReadFull rand PrivateKeySize = (Inr blindingBytes, rand')"
  shows "\<exists>publicKey. GeneratePublicKey rand privateKey = (Inr publicKey, rand')
           \<and> length publicKey = 256"
proof -
  let ?v = "generator ^ nat (trueExponent privateKey)"
  have "GeneratePublicKey rand privateKey = blindedModExp rand generator privateKey"
    using assms(1) by (simp add: GeneratePublicKey_def)
  moreover note blindedModExp_read_ok [OF assms(2), of generator privateKey]
  moreover have "length (replicate (PublicKeySize - length (big_Bytes (?v mod modulus))) (0::byte)
                         @ big_Bytes (?v mod modulus)) = 256"
    using length_padded_residue [of ?v] by (simp only: PublicKeySize_def)
  ultimately show ?thesis by simp
qed

text \<open>
  C8. \<open>GenerateKeyPair\<close> reads 32 bytes, the first 32 of the random source, as the
  private key; a failure of that read, or of the read of the blinding bytes inside
  \<open>GeneratePublicKey\<close>, is returned as the error; on success it returns that private
  key and the 256-byte public key \<open>GeneratePublicKey\<close> derives from it. Whenever the
  error is set, both returned keys are \<open>nil\<close>.
\<close>

theorem GenerateKeyPair_result:
  "(case ReadFull rand PrivateKeySize of
      (Inl err, rand') \<Rightarrow>
        GenerateKeyPair rand = ((None, None, Some (ReadFailure err)), rand')
    | (Inr privateKey, rand') \<Rightarrow>
        privateKey = take 32 (pending rand) \<and> length privateKey = 32
        \<and> (case ReadFull rand' PrivateKeySize of
              (Inl err, rand'') \<Rightarrow>
                GeneratePublicKey rand' privateKey = (Inl (ReadFailure err), rand'')
                \<and> GenerateKeyPair rand = ((None, None, Some (ReadFailure err)), rand'')
            | (Inr blindingBytes, rand'') \<Rightarrow>
                (\<exists>publicKey.
                   GeneratePublicKey rand' privateKey = (Inr publicKey, rand'')
                   \<and> length publicKey = 256
                   \<and> GenerateKeyPair rand = ((Some publicKey, Some privateKey, None), rand''))))
   \<and> (case fst (GenerateKeyPair rand) of
         (publicKey, privateKey, err) \<Rightarrow>
           if err = None then publicKey \<noteq> None \<and> privateKey \<noteq> None
           else publicKey = None \<and> privateKey = None)"
proof -
  obtain res rand' where rd: "ReadFull rand PrivateKeySize = (res, rand')"
    by (cases "ReadFull rand PrivateKeySize")
  show ?thesis
  proof (cases res)
    case (Inl err)
    with rd show ?thesis by (simp add: GenerateKeyPair_def)
  next
    case (Inr privateKey)
    have len: "length privateKey = PrivateKeySize"
      using rd Inr by (simp add: ReadFull_length)
    have first: "privateKey = take 32 (pending rand)"
      using rd Inr by (auto simp: ReadFull_def PrivateKeySize_def split: if_splits)
    have gen: "GeneratePublicKey rand' privateKey = blindedModExp rand' generator privateKey"
      using len by (simp add: GeneratePublicKey_def)
    obtain res2 rand'' where rd2: "ReadFull rand' PrivateKeySize = (res2, rand'')"
      by (cases "ReadFull rand' PrivateKeySize")
    show ?thesis
    proof (cases res2)
      case (Inl err)
      with rd2 have "GeneratePublicKey rand' privateKey = (Inl (ReadFailure err), rand'')"
        by (simp add: gen blindedModExp_read_fail)
      with rd Inr rd2 Inl len first show ?thesis
        by (simp add: GenerateKeyPair_def PrivateKeySize_def)
    next
      case (Inr blindingBytes)
      with rd2 GeneratePublicKey_read_ok [OF len, of rand' blindingBytes rand'']
      obtain publicKey where
        "GeneratePublicKey rand' privateKey = (Inr publicKey, rand'')" "length publicKey = 256"
        by blast
      with rd \<open>res = Inr privateKey\<close> rd2 Inr len first show ?thesis
        by (simp add: GenerateKeyPair_def PrivateKeySize_def)
    qed
  qed
qed

theorem GenerateKeyPair_result_witness:
  "(\<exists>publicKey.
      GenerateKeyPair \<lparr>pending = replicate 32 17 @ replicate 32 34, ending = None\<rparr>
        = ((Some publicKey, Some (replicate 32 17), None), \<lparr>pending = [], ending = None\<rparr>)
      \<and> length publicKey = 256)
   \<and> GenerateKeyPair \<lparr>pending = replicate 32 17 @ replicate 31 34, ending = None\<rparr>
        = ((None, None, Some (ReadFailure ErrUnexpectedEOF)), \<lparr>pending = [], ending = None\<rparr>)
   \<and> GenerateKeyPair \<lparr>pending = [], ending = Some ''entropy unavailable''\<rparr>
        = ((None, None, Some (ReadFailure (ReaderError ''entropy unavailable''))),
           \<lparr>pending = [], ending = Some ''entropy unavailable''\<rparr>)"
proof -
  have r1: "ReadFull \<lparr>pending = replicate 32 17 @ replicate 32 34, ending = None\<rparr> PrivateKeySize
            = (Inr (replicate 32 17), \<lparr>pending = replicate 32 34, ending = None\<rparr>)"
    by (simp add: ReadFull_def PrivateKeySize_def)
  have r2: "ReadFull \<lparr>pending = replicate 32 34, ending = None\<rparr> PrivateKeySize
            = (Inr (replicate 32 34), \<lparr>pending = [], ending = None\<rparr>)"
    by (simp add: ReadFull_def PrivateKeySize_def)
  have a: "\<exists>publicKey.
      GenerateKeyPair \<lparr>pending = replicate 32 17 @ replicate 32 34, ending = None\<rparr>
        = ((Some publicKey, Some (replicate 32 17), None), \<lparr>pending = [], ending = None\<rparr>)
      \<and> length publicKey = 256"
    using GenerateKeyPair_result [of "\<lparr>pending = replicate 32 17 @ replicate 32 34, ending = None\<rparr>",
        THEN conjunct1]
    unfolding r1 prod.case sum.case r2 by blast
  have s1: "ReadFull \<lparr>pending = replicate 32 17 @ replicate 31 34, ending = None\<rparr> PrivateKeySize
            = (Inr (replicate 32 17), \<lparr>pending = replicate 31 34, ending = None\<rparr>)"
    by (simp add: ReadFull_def PrivateKeySize_def)
  have s2: "ReadFull \<lparr>pending = replicate 31 34, ending = None\<rparr> PrivateKeySize
            = (Inl ErrUnexpectedEOF, \<lparr>pending = [], ending = None\<rparr>)"
    by (simp add: ReadFull_def PrivateKeySize_def)
  have b: "GenerateKeyPair \<lparr>pending = replicate 32 17 @ replicate 31 34, ending = None\<rparr>
        = ((None, None, Some (ReadFailure ErrUnexpectedEOF)), \<lparr>pending = [], ending = None\<rparr>)"
    using GenerateKeyPair_result [of "\<lparr>pending = replicate 32 17 @ replicate 31 34, ending = None\<rparr>",
        THEN conjunct1]
    unfolding s1 prod.case sum.case s2 by blast
  have t: "ReadFull \<lparr>pending = [], ending = Some ''entropy unavailable''\<rparr> PrivateKeySize
            = (Inl (ReaderError ''entropy unavailable''),
               \<lparr>pending = [], ending = Some ''entropy unavailable''\<rparr>)"
    by (simp add: ReadFull_def PrivateKeySize_def)
  have c: "GenerateKeyPair \<lparr>pending = [], ending = Some ''entropy unavailable''\<rparr>
        = ((None, None, Some (ReadFailure (ReaderError ''entropy unavailable''))),
           \<lparr>pending = [], ending = Some ''entropy unavailable''\<rparr>)"
    using GenerateKeyPair_result [of "\<lparr>pending = [], ending = Some ''entropy unavailable''\<rparr>",
        THEN conjunct1]
    unfolding t prod.case sum.case by blast
  from a b c show ?thesis by (intro conjI)
qed

subsection \<open>C9: the degenerate peer keys 0 and 1\<close>

lemma Bytes_zero: "big_Bytes 0 = []"
  by (simp add: big_Bytes_def be_bytes.simps)

lemma Bytes_one: "big_Bytes 1 = [1]"
proof -
  have "be_bytes 1 = be_bytes 0 @ [1]"
    by (subst be_bytes.simps) simp
  then show ?thesis
    by (simp add: big_Bytes_def be_bytes.simps)
qed

lemma trueExponent_pos: "0 < nat (trueExponent privateKey)"
  using SetBytes_nonneg [of privateKey] by (simp add: trueExponent_value)

text \<open>
  C9. The range check rejects only values at or above the modulus. For a 32-byte
  private key and any 32 blinding bytes, \<open>SharedKey\<close> on the all-zero 256-byte peer
  key succeeds with 256 zero bytes, and on the 256-byte encoding of 1 it succeeds with
  the 256-byte encoding of 1.
\<close>

theorem SharedKey_degenerate:
  assumes "length myPrivateKey = PrivateKeySize"
    and "ReadFull rand PrivateKeySize = (Inr blindingBytes, rand')"
  shows "SharedKey rand (replicate 256 0) myPrivateKey = (Inr (replicate 256 0), rand')
         \<and> SharedKey rand (replicate 255 0 @ [1]) myPrivateKey
             = (Inr (replicate 255 0 @ [1]), rand')
         \<and> big_SetBytes (replicate 256 0) = 0 \<and> big_SetBytes (replicate 255 0 @ [1]) = 1"
proof -
  have v0: "big_SetBytes (replicate 256 0) = 0"
    by (rule SetBytes_zeros)
  have v1: "big_SetBytes (replicate 255 0 @ [1]) = 1"
    by (simp only: SetBytes_pad) (simp add: big_SetBytes_def)
  have m1: "(1::int) mod modulus = 1"
    by (simp add: modulus_value)
  have "(0::int) ^ nat (trueExponent myPrivateKey) = 0"
    using trueExponent_pos [of myPrivateKey] by (simp only: zero_power)
  then have p0: "(0::int) ^ nat (trueExponent myPrivateKey) mod modulus = 0"
    by (simp only: mod_0)
  have p1: "(1::int) ^ nat (trueExponent myPrivateKey) mod modulus = 1"
    by (simp add: m1)
  have "SharedKey rand (replicate 256 0) myPrivateKey = blindedModExp rand 0 myPrivateKey"
    using assms(1) modulus_pos by (simp add: SharedKey_def Let_def v0 PublicKeySize_def)
  also have "\<dots> = (Inr (replicate 256 0), rand')"
    unfolding blindedModExp_read_ok [OF assms(2)] p0
    by (simp add: Bytes_zero PublicKeySize_def)
  finally have s0: "SharedKey rand (replicate 256 0) myPrivateKey = (Inr (replicate 256 0), rand')" .
  have "SharedKey rand (replicate 255 0 @ [1]) myPrivateKey = blindedModExp rand 1 myPrivateKey"
    using assms(1) by (simp add: SharedKey_def Let_def v1 PublicKeySize_def modulus_value)
  also have "\<dots> = (Inr (replicate 255 0 @ [1]), rand')"
    unfolding blindedModExp_read_ok [OF assms(2)] p1
    by (simp add: Bytes_one PublicKeySize_def)
  finally have s1: "SharedKey rand (replicate 255 0 @ [1]) myPrivateKey
             = (Inr (replicate 255 0 @ [1]), rand')" .
  from s0 s1 v0 v1 show ?thesis by (intro conjI)
qed

theorem SharedKey_degenerate_witness:
  "length (replicate 32 (200::byte)) = PrivateKeySize
   \<and> SharedKey \<lparr>pending = replicate 32 99, ending = None\<rparr> (replicate 256 0) (replicate 32 200)
       = (Inr (replicate 256 0), \<lparr>pending = [], ending = None\<rparr>)
   \<and> SharedKey \<lparr>pending = replicate 32 99, ending = None\<rparr> (replicate 255 0 @ [1]) (replicate 32 200)
       = (Inr (replicate 255 0 @ [1]), \<lparr>pending = [], ending = None\<rparr>)"
proof -
  have k: "length (replicate 32 (200::byte)) = PrivateKeySize"
    by (simp add: PrivateKeySize_def)
  have d: "ReadFull \<lparr>pending = replicate 32 99, ending = None\<rparr> PrivateKeySize
            = (Inr (replicate 32 99), \<lparr>pending = [], ending = None\<rparr>)"
    by (simp add: ReadFull_def PrivateKeySize_def)
  from SharedKey_degenerate [OF k d] k show ?thesis
    by blast
qed

subsection \<open>C10: what the calls write\<close>

lemma make_then_write:
  "length bs = n \<Longrightarrow>
   write_bytes (mem @ [replicate n 0]) \<lparr>array = length mem, offset = 0, len = n\<rparr> bs = mem @ [bs]"
  by (simp add: write_bytes_def Let_def)

lemma make_then_short_write:
  "write_bytes (mem @ [replicate n 0]) \<lparr>array = length mem, offset = 0, len = n\<rparr> bs
     = mem @ [take (min n (length bs)) bs @ drop (min n (length bs)) (replicate n 0)]"
  by (simp add: write_bytes_def Let_def)

lemma load_last: "load (mem @ [bs]) \<lparr>array = length mem, offset = 0, len = length bs\<rparr> = bs"
  by (simp add: load_def)

lemma load_extended: "valid_slice mem s \<Longrightarrow> load (mem @ ext) s = load mem s"
  by (simp add: load_def valid_slice_def nth_append)

lemma ReadFull_mem_ok:
  assumes "ReadFull rand n = (Inr bb, rand')"
  shows "ReadFull_mem (mem @ [replicate n 0]) rand \<lparr>array = length mem, offset = 0, len = n\<rparr>
           = (None, mem @ [bb], rand')"
  using assms ReadFull_length [OF assms] by (simp add: ReadFull_mem_def make_then_write)

lemma ReadFull_mem_fail:
  assumes "ReadFull rand n = (Inl err, rand')"
  shows "ReadFull_mem (mem @ [replicate n 0]) rand \<lparr>array = length mem, offset = 0, len = n\<rparr>
           = (Some err, mem @ [take (min n (length (pending rand))) (pending rand)
                            @ drop (min n (length (pending rand))) (replicate n 0)], rand')"
  using assms by (simp add: ReadFull_mem_def make_then_short_write)

lemma copy_padded:
  assumes "length B \<le> n"
  shows "copy_slice (mem @ [bb, replicate n 0, B])
           \<lparr>array = Suc (length mem), offset = n - length B, len = length B\<rparr>
           \<lparr>array = Suc (Suc (length mem)), offset = 0, len = length B\<rparr>
         = mem @ [bb, replicate (n - length B) 0 @ B, B]"
proof -
  have ld: "load (mem @ [bb, replicate n 0, B])
              \<lparr>array = Suc (Suc (length mem)), offset = 0, len = length B\<rparr> = B"
    by (simp add: load_def nth_append)
  have "take (n - length B) (replicate n (0::byte)) = replicate (n - length B) 0"
    by simp
  moreover have "drop (n - length B + length B) (replicate n (0::byte)) = []"
    using assms by simp
  ultimately show ?thesis
    unfolding copy_slice_def ld
    by (simp add: write_bytes_def Let_def nth_append list_update_append)
qed

lemma blindedModExp_mem_fail:
  assumes "ReadFull rand PrivateKeySize = (Inl err, rand')"
  shows "\<exists>junk. blindedModExp_mem mem rand a privateKey
                   = (Inl (ReadFailure err), mem @ [junk], rand')"
  unfolding blindedModExp_mem_def Let_def make_slice_def prod.case
  by (simp add: ReadFull_mem_fail [OF assms])

lemma blindedModExp_mem_ok:
  assumes "ReadFull rand PrivateKeySize = (Inr bb, rand')"
  shows "blindedModExp_mem mem rand a privateKey =
           (Inr \<lparr>array = Suc (length mem), offset = 0, len = PublicKeySize\<rparr>,
            mem @ [bb,
                   replicate (PublicKeySize - length (big_Bytes (a ^ nat (trueExponent (load mem privateKey)) mod modulus))) 0
                     @ big_Bytes (a ^ nat (trueExponent (load mem privateKey)) mod modulus),
                   big_Bytes (a ^ nat (trueExponent (load mem privateKey)) mod modulus)],
            rand')"
proof -
  let ?k = "load mem privateKey"
  let ?v = "a ^ nat (trueExponent ?k) mod modulus"
  have lbb: "length bb = PrivateKeySize"
    by (rule ReadFull_length [OF assms])
  then have "length bb \<le> 32"
    by (simp add: PrivateKeySize_def)
  from engine_arith [OF this, of a ?k]
  obtain r1 r2 where
    r1: "big_Exp a (blindingExponent bb) modulus = Some r1" and
    r2: "big_Exp a (trueExponent ?k - blindingExponent bb) modulus = Some r2" and
    m: "big_Mod (r1 * r2) modulus = Some ?v"
    by blast
  have bl: "\<not> big_BitLen modulus < big_BitLen ?v"
    using BitLen_residue [of "a ^ nat (trueExponent ?k)"] by simp
  have ln: "length (big_Bytes ?v) \<le> PublicKeySize"
    by (rule length_Bytes_residue)
  have ld: "load (mem @ [bb]) \<lparr>array = length mem, offset = 0, len = PrivateKeySize\<rparr> = bb"
    using load_last [of mem bb] by (simp only: lbb)
  have cp: "copy_slice ((mem @ [bb]) @ [replicate PublicKeySize 0] @ [big_Bytes ?v])
           \<lparr>array = Suc (length mem), offset = PublicKeySize - length (big_Bytes ?v),
             len = length (big_Bytes ?v)\<rparr>
           \<lparr>array = Suc (Suc (length mem)), offset = 0, len = length (big_Bytes ?v)\<rparr>
         = mem @ [bb, replicate (PublicKeySize - length (big_Bytes ?v)) 0 @ big_Bytes ?v, big_Bytes ?v]"
    using copy_padded [OF ln, of mem bb] by simp
  show ?thesis
    unfolding blindedModExp_mem_def Let_def make_slice_def Bytes_mem_def prod.case
      ReadFull_mem_ok [OF assms] option.case ld r1 r2 m
    using bl ln cp by simp
qed

lemma length_load: "valid_slice mem s \<Longrightarrow> length (load mem s) = len s"
  by (auto simp: valid_slice_def load_def)

lemma load_preserved:
  assumes "take (length mem) mem' = mem" and "valid_slice mem s"
  shows "load mem' s = load mem s"
proof -
  have "mem' = mem @ drop (length mem) mem'"
    using assms(1) append_take_drop_id [of "length mem" mem'] by simp
  then show ?thesis
    using load_extended [OF assms(2), of "drop (length mem) mem'"] by simp
qed

lemma fresh_not_input:
  "length mem \<le> array (out::slice) \<Longrightarrow> valid_slice mem s \<Longrightarrow> array out \<noteq> array s"
  by (auto simp: valid_slice_def)

lemma blindedModExp_mem_frame:
  "case blindedModExp_mem mem rand a privateKey of
     (res, mem', rand') \<Rightarrow>
       take (length mem) mem' = mem
       \<and> (case res of Inl err \<Rightarrow> True
           | Inr out \<Rightarrow> length mem \<le> array out \<and> valid_slice mem' out)
       \<and> (map_sum id (load mem') res, rand') = blindedModExp rand a (load mem privateKey)"
proof -
  obtain rd rand' where rf: "ReadFull rand PrivateKeySize = (rd, rand')"
    by (cases "ReadFull rand PrivateKeySize")
  show ?thesis
  proof (cases rd)
    case (Inl err)
    with rf have f: "ReadFull rand PrivateKeySize = (Inl err, rand')" by simp
    from blindedModExp_mem_fail [OF f, of mem a privateKey]
    obtain junk where "blindedModExp_mem mem rand a privateKey
                   = (Inl (ReadFailure err), mem @ [junk], rand')" by blast
    then show ?thesis
      by (simp add: blindedModExp_read_fail [OF f])
  next
    case (Inr bb)
    with rf have f: "ReadFull rand PrivateKeySize = (Inr bb, rand')" by simp
    let ?v = "a ^ nat (trueExponent (load mem privateKey)) mod modulus"
    have ln: "length (big_Bytes ?v) \<le> PublicKeySize"
      by (rule length_Bytes_residue)
    show ?thesis
      unfolding blindedModExp_mem_ok [OF f] blindedModExp_read_ok [OF f]
      using ln by (simp add: valid_slice_def load_def nth_append)
  qed
qed

lemma GeneratePublicKey_mem_frame:
  assumes "valid_slice mem privateKey"
  shows "case GeneratePublicKey_mem mem rand privateKey of
     (res, mem', rand') \<Rightarrow>
       take (length mem) mem' = mem
       \<and> (case res of Inl err \<Rightarrow> True
           | Inr out \<Rightarrow> length mem \<le> array out \<and> valid_slice mem' out)
       \<and> (map_sum id (load mem') res, rand') = GeneratePublicKey rand (load mem privateKey)"
proof (cases "len privateKey = PrivateKeySize")
  case True
  then show ?thesis
    using blindedModExp_mem_frame [of mem rand generator privateKey]
    by (simp add: GeneratePublicKey_mem_def GeneratePublicKey_def length_load [OF assms])
next
  case False
  then show ?thesis
    by (simp add: GeneratePublicKey_mem_def GeneratePublicKey_def length_load [OF assms])
qed

lemma SharedKey_mem_frame:
  assumes "valid_slice mem theirPublicKey" and "valid_slice mem myPrivateKey"
  shows "case SharedKey_mem mem rand theirPublicKey myPrivateKey of
     (res, mem', rand') \<Rightarrow>
       take (length mem) mem' = mem
       \<and> (case res of Inl err \<Rightarrow> True
           | Inr out \<Rightarrow> length mem \<le> array out \<and> valid_slice mem' out)
       \<and> (map_sum id (load mem') res, rand')
           = SharedKey rand (load mem theirPublicKey) (load mem myPrivateKey)"
proof (cases "len theirPublicKey = PublicKeySize \<and> len myPrivateKey = PrivateKeySize
              \<and> big_SetBytes (load mem theirPublicKey) < modulus")
  case True
  then show ?thesis
    using blindedModExp_mem_frame [of mem rand "big_SetBytes (load mem theirPublicKey)" myPrivateKey]
    by (simp add: SharedKey_mem_def SharedKey_def Let_def
        length_load [OF assms(1)] length_load [OF assms(2)])
next
  case False
  then show ?thesis
    by (auto simp: SharedKey_mem_def SharedKey_def Let_def
        length_load [OF assms(1)] length_load [OF assms(2)])
qed

text \<open>
  C10. No call writes to its inputs. After \<open>blindedModExp\<close>, \<open>GeneratePublicKey\<close> or
  \<open>SharedKey\<close>, every array that existed before the call holds the bytes it held, so
  the caller's private-key and peer-key slices read as before; a returned key is a slice
  of an array allocated during the call, so it shares no array with an input; and the
  bytes returned, the error and the state of the random source are those of the
  operations on byte values above.
\<close>

theorem inputs_unchanged_result_fresh:
  assumes "valid_slice mem privateKey" and "valid_slice mem theirPublicKey"
  shows "(case blindedModExp_mem mem rand a privateKey of
            (res, mem', rand') \<Rightarrow>
              take (length mem) mem' = mem
              \<and> load mem' privateKey = load mem privateKey
              \<and> (case res of Inl err \<Rightarrow> True
                  | Inr out \<Rightarrow> valid_slice mem' out \<and> length mem \<le> array out
                               \<and> array out \<noteq> array privateKey)
              \<and> (map_sum id (load mem') res, rand') = blindedModExp rand a (load mem privateKey))
         \<and> (case GeneratePublicKey_mem mem rand privateKey of
            (res, mem', rand') \<Rightarrow>
              take (length mem) mem' = mem
              \<and> load mem' privateKey = load mem privateKey
              \<and> (case res of Inl err \<Rightarrow> True
                  | Inr out \<Rightarrow> valid_slice mem' out \<and> length mem \<le> array out
                               \<and> array out \<noteq> array privateKey)
              \<and> (map_sum id (load mem') res, rand') = GeneratePublicKey rand (load mem privateKey))
         \<and> (case SharedKey_mem mem rand theirPublicKey privateKey of
            (res, mem', rand') \<Rightarrow>
              take (length mem) mem' = mem
              \<and> load mem' privateKey = load mem privateKey
              \<and> load mem' theirPublicKey = load mem theirPublicKey
              \<and> (case res of Inl err \<Rightarrow> True
                  | Inr out \<Rightarrow> valid_slice mem' out \<and> length mem \<le> array out
                               \<and> array out \<noteq> array privateKey
                               \<and> array out \<noteq> array theirPublicKey)
              \<and> (map_sum id (load mem') res, rand')
                  = SharedKey rand (load mem theirPublicKey) (load mem privateKey))"
proof -
  have e: "case blindedModExp_mem mem rand a privateKey of
            (res, mem', rand') \<Rightarrow>
              take (length mem) mem' = mem
              \<and> load mem' privateKey = load mem privateKey
              \<and> (case res of Inl err \<Rightarrow> True
                  | Inr out \<Rightarrow> valid_slice mem' out \<and> length mem \<le> array out
                               \<and> array out \<noteq> array privateKey)
              \<and> (map_sum id (load mem') res, rand') = blindedModExp rand a (load mem privateKey)"
  proof -
    obtain res mem' rand' where c: "blindedModExp_mem mem rand a privateKey = (res, mem', rand')"
      by (cases "blindedModExp_mem mem rand a privateKey")
    from blindedModExp_mem_frame [of mem rand a privateKey]
    have keep: "take (length mem) mem' = mem"
      and new: "case res of Inl err \<Rightarrow> True
                | Inr out \<Rightarrow> length mem \<le> array out \<and> valid_slice mem' out"
      and same: "(map_sum id (load mem') res, rand') = blindedModExp rand a (load mem privateKey)"
      unfolding c prod.case by blast+
    have "case res of Inl err \<Rightarrow> True
          | Inr out \<Rightarrow> valid_slice mem' out \<and> length mem \<le> array out
                       \<and> array out \<noteq> array privateKey"
      using new fresh_not_input [OF _ assms(1)] by (cases res) simp_all
    with keep load_preserved [OF keep assms(1)] same show ?thesis
      unfolding c prod.case by (intro conjI)
  qed
  have g: "case GeneratePublicKey_mem mem rand privateKey of
            (res, mem', rand') \<Rightarrow>
              take (length mem) mem' = mem
              \<and> load mem' privateKey = load mem privateKey
              \<and> (case res of Inl err \<Rightarrow> True
                  | Inr out \<Rightarrow> valid_slice mem' out \<and> length mem \<le> array out
                               \<and> array out \<noteq> array privateKey)
              \<and> (map_sum id (load mem') res, rand') = GeneratePublicKey rand (load mem privateKey)"
  proof -
    obtain res mem' rand' where c: "GeneratePublicKey_mem mem rand privateKey = (res, mem', rand')"
      by (cases "GeneratePublicKey_mem mem rand privateKey")
    from GeneratePublicKey_mem_frame [OF assms(1), of rand]
    have keep: "take (length mem) mem' = mem"
      and new: "case res of Inl err \<Rightarrow> True
                | Inr out \<Rightarrow> length mem \<le> array out \<and> valid_slice mem' out"
      and same: "(map_sum id (load mem') res, rand') = GeneratePublicKey rand (load mem privateKey)"
      unfolding c prod.case by blast+
    have "case res of Inl err \<Rightarrow> True
          | Inr out \<Rightarrow> valid_slice mem' out \<and> length mem \<le> array out
                       \<and> array out \<noteq> array privateKey"
      using new fresh_not_input [OF _ assms(1)] by (cases res) simp_all
    with keep load_preserved [OF keep assms(1)] same show ?thesis
      unfolding c prod.case by (intro conjI)
  qed
  have s: "case SharedKey_mem mem rand theirPublicKey privateKey of
            (res, mem', rand') \<Rightarrow>
              take (length mem) mem' = mem
              \<and> load mem' privateKey = load mem privateKey
              \<and> load mem' theirPublicKey = load mem theirPublicKey
              \<and> (case res of Inl err \<Rightarrow> True
                  | Inr out \<Rightarrow> valid_slice mem' out \<and> length mem \<le> array out
                               \<and> array out \<noteq> array privateKey
                               \<and> array out \<noteq> array theirPublicKey)
              \<and> (map_sum id (load mem') res, rand')
                  = SharedKey rand (load mem theirPublicKey) (load mem privateKey)"
  proof -
    obtain res mem' rand' where
      c: "SharedKey_mem mem rand theirPublicKey privateKey = (res, mem', rand')"
      by (cases "SharedKey_mem mem rand theirPublicKey privateKey")
    from SharedKey_mem_frame [OF assms(2) assms(1), of rand]
    have keep: "take (length mem) mem' = mem"
      and new: "case res of Inl err \<Rightarrow> True
                | Inr out \<Rightarrow> length mem \<le> array out \<and> valid_slice mem' out"
      and same: "(map_sum id (load mem') res, rand')
                  = SharedKey rand (load mem theirPublicKey) (load mem privateKey)"
      unfolding c prod.case by blast+
    have "case res of Inl err \<Rightarrow> True
          | Inr out \<Rightarrow> valid_slice mem' out \<and> length mem \<le> array out
                       \<and> array out \<noteq> array privateKey
                       \<and> array out \<noteq> array theirPublicKey"
      using new fresh_not_input [OF _ assms(1)] fresh_not_input [OF _ assms(2)]
      by (cases res) auto
    with keep load_preserved [OF keep assms(1)] load_preserved [OF keep assms(2)] same
    show ?thesis
      unfolding c prod.case by (intro conjI)
  qed
  from e g s show ?thesis by (intro conjI)
qed

theorem inputs_unchanged_result_fresh_witness:
  "valid_slice [replicate 32 7, replicate 300 0] \<lparr>array = 0, offset = 0, len = 32\<rparr>
   \<and> valid_slice [replicate 32 7, replicate 300 0] \<lparr>array = 1, offset = 10, len = 256\<rparr>
   \<and> (case SharedKey_mem [replicate 32 7, replicate 300 0]
              \<lparr>pending = replicate 32 9, ending = None\<rparr>
              \<lparr>array = 1, offset = 10, len = 256\<rparr> \<lparr>array = 0, offset = 0, len = 32\<rparr> of
         (res, mem', rand') \<Rightarrow>
           take 2 mem' = [replicate 32 7, replicate 300 0]
           \<and> load mem' \<lparr>array = 0, offset = 0, len = 32\<rparr> = replicate 32 7
           \<and> load mem' \<lparr>array = 1, offset = 10, len = 256\<rparr> = replicate 256 0
           \<and> (case res of Inl err \<Rightarrow> True | Inr out \<Rightarrow> 2 \<le> array out))"
proof -
  let ?mem = "[replicate 32 (7::byte), replicate 300 0]"
  let ?k = "\<lparr>array = 0, offset = 0, len = 32\<rparr>"
  let ?p = "\<lparr>array = 1, offset = 10, len = 256\<rparr>"
  let ?r = "\<lparr>pending = replicate 32 (9::byte), ending = None\<rparr>"
  have vk: "valid_slice ?mem ?k" and vp: "valid_slice ?mem ?p"
    by (simp_all add: valid_slice_def)
  have lk: "load ?mem ?k = replicate 32 7" and lp: "load ?mem ?p = replicate 256 0"
    by (simp_all add: load_def)
  obtain res mem' rand' where c: "SharedKey_mem ?mem ?r ?p ?k = (res, mem', rand')"
    by (cases "SharedKey_mem ?mem ?r ?p ?k")
  from inputs_unchanged_result_fresh [OF vk vp, of ?r 0, THEN conjunct2, THEN conjunct2]
  have "take 2 mem' = ?mem \<and> load mem' ?k = replicate 32 7 \<and> load mem' ?p = replicate 256 0
        \<and> (case res of Inl err \<Rightarrow> True | Inr out \<Rightarrow> 2 \<le> array out)"
    unfolding c prod.case lk lp by (cases res) (simp_all add: numeral_2_eq_2)
  with vk vp show ?thesis
    unfolding c prod.case by blast
qed

end
